theory Spec2Isabelle
  imports Complex_Main "HOL-Library.Multiset" "HOL-Library.Code_Target_Numeral"
begin

section \<open>Python values, errors and arithmetic\<close>

text \<open>
  The development embeds \<^verbatim>\<open>gifception.py\<close>. Python numbers are idealised: an
  \<^verbatim>\<open>int\<close> that sizes an image or counts frames is a natural number or an integer, and
  a \<^verbatim>\<open>float\<close> is a real number, so rounding errors of IEEE arithmetic are not part
  of the model. Every \<^verbatim>\<open>raise\<close> of the source and of the Pillow calls it makes is a
  value \<open>Inl e\<close> of the result type.
\<close>

datatype message =
    ExceedsMaxPixels real real
  | HeightAndWidthMustBePositive
  | CoordinateRightLessThanLeft
  | AnchorOutOfBounds "real \<times> real" nat nat
  | ComplexRound
  | Text string

datatype error =
    ValueError message
  | TypeError message
  | NameError string
  | AttributeError string
  | ZeroDivisionError
  | GifceptionException string

text \<open>\<^verbatim>\<open>int(x)\<close> truncates towards zero.\<close>

definition py_int :: "real \<Rightarrow> int" where
  "py_int x = (if 0 \<le> x then \<lfloor>x\<rfloor> else \<lceil>x\<rceil>)"

text \<open>\<^verbatim>\<open>round(x)\<close> rounds to the nearest integer, a tie to the even neighbour.\<close>

definition py_round :: "real \<Rightarrow> int" where
  "py_round x =
     (let f = \<lfloor>x\<rfloor>; d = x - of_int f
      in if d < 1 / 2 then f
         else if 1 / 2 < d then f + 1
         else if even f then f else f + 1)"

text \<open>\<^verbatim>\<open>x / y\<close> raises on a zero divisor.\<close>

definition py_truediv :: "real \<Rightarrow> real \<Rightarrow> error + real" where
  "py_truediv x y = (if y = 0 then Inl ZeroDivisionError else Inr (x / y))"

text \<open>
  \<^verbatim>\<open>x ** y\<close>. A negative base with a fractional exponent gives a Python
  \<^verbatim>\<open>complex\<close>; the only use the source makes of such a value ends in
  \<^verbatim>\<open>round\<close>, which raises \<^verbatim>\<open>TypeError\<close> on it before anything is mutated or
  written, so the model raises that error here.
\<close>

definition py_pow :: "real \<Rightarrow> real \<Rightarrow> error + real" where
  "py_pow x y =
     (if 0 < x then Inr (x powr y)
      else if y = 0 then Inr 1
      else if x = 0 then (if 0 < y then Inr 0 else Inl ZeroDivisionError)
      else if y = of_int \<lfloor>y\<rfloor> then Inr (x powi \<lfloor>y\<rfloor>)
      else Inl (TypeError ComplexRound))"

section \<open>Pillow images in a store\<close>

text \<open>
  A \<^verbatim>\<open>PIL.Image\<close> object lives at an address of a store; an \<^verbatim>\<open>AnchoredImage\<close>
  refers to its image by address, so that sharing and in-place mutation
  (\<^verbatim>\<open>Image.paste\<close>) are visible. Pixel data is a term that records from which picture
  and by which Pillow operations it came; equal terms are equal pixel data.

  Pillow is a library, not part of the repository. Its four methods are modelled as its
  documentation and the source's own comment state them: \<^verbatim>\<open>copy\<close>, \<^verbatim>\<open>crop\<close> and
  \<^verbatim>\<open>resize\<close> return a new image and leave their argument alone; \<^verbatim>\<open>resize\<close> to the
  size the image already has returns a copy, and it raises \<^verbatim>\<open>ValueError\<close> for a target
  without pixels; \<^verbatim>\<open>crop\<close> rounds its box and raises \<^verbatim>\<open>ValueError\<close> for a box whose
  right or lower edge comes before the left or upper one; \<^verbatim>\<open>paste\<close> writes into the
  image it is called on, clipping what falls outside.
\<close>

datatype resampler = NEAREST | BOX | BILINEAR | HAMMING | BICUBIC | LANCZOS

datatype raster =
    Raw nat
  | Resampled raster "int \<times> int" resampler
  | Cropped raster "int \<times> int \<times> int \<times> int"
  | Pasted raster raster "int \<times> int"

record image =
  width :: nat
  height :: nat
  raster :: raster

type_synonym store = "image list"

definition pil_copy :: "nat \<Rightarrow> store \<Rightarrow> nat \<times> store" where
  "pil_copy i st = (length st, st @ [st ! i])"

definition pil_resize :: "nat \<Rightarrow> int \<times> int \<Rightarrow> resampler \<Rightarrow> store \<Rightarrow> error + nat \<times> store" where
  "pil_resize i sz f st =
     (let im = st ! i
      in if (int (width im), int (height im)) = sz then Inr (pil_copy i st)
         else if fst sz < 1 \<or> snd sz < 1 then Inl (ValueError HeightAndWidthMustBePositive)
         else Inr (length st,
                   st @ [\<lparr>width = nat (fst sz), height = nat (snd sz),
                           raster = Resampled (raster im) sz f\<rparr>]))"

definition pil_crop :: "nat \<Rightarrow> real \<times> real \<times> real \<times> real \<Rightarrow> store \<Rightarrow> error + nat \<times> store" where
  "pil_crop i box st =
     (case box of (x0, y0, x1, y1) \<Rightarrow>
        let l = py_round x0; u = py_round y0; r = py_round x1; b = py_round y1
        in if r < l \<or> b < u then Inl (ValueError CoordinateRightLessThanLeft)
           else Inr (length st,
                     st @ [\<lparr>width = nat (r - l), height = nat (b - u),
                             raster = Cropped (raster (st ! i)) (l, u, r, b)\<rparr>]))"

definition pil_paste :: "nat \<Rightarrow> nat \<Rightarrow> int \<times> int \<Rightarrow> store \<Rightarrow> store" where
  "pil_paste i j off st =
     st[i := (st ! i)\<lparr>raster := Pasted (raster (st ! i)) (raster (st ! j)) off\<rparr>]"

section \<open>AnchoredImage\<close>

record ai_config =
  max_pixels :: real
  resampler :: resampler

definition default_config :: ai_config where
  "default_config = \<lparr>max_pixels = 800000000, resampler = BICUBIC\<rparr>"

record anchored_image =
  img :: nat
  rel_anchor :: "real \<times> real"
  config :: ai_config

text \<open>
  The constructor with \<^verbatim>\<open>relative = True\<close>, its default and the only way the
  operations below call it: \<^verbatim>\<open>config or copy.copy(_default_config)\<close> takes the default
  when no configuration is passed.
\<close>

definition AnchoredImage :: "nat \<Rightarrow> real \<times> real \<Rightarrow> ai_config option \<Rightarrow> anchored_image" where
  "AnchoredImage i anchor cfg =
     \<lparr>img = i, rel_anchor = anchor,
      config = (case cfg of None \<Rightarrow> default_config | Some c \<Rightarrow> c)\<rparr>"

definition size_img :: "anchored_image \<Rightarrow> store \<Rightarrow> nat \<times> nat" where
  "size_img a st = (width (st ! img a), height (st ! img a))"

text \<open>
  \<^verbatim>\<open>scale(factor, max_pixels = None)\<close>: the limit tested is the configured one; the limit
  printed in the message is \<^verbatim>\<open>max_pixels or self.config["max_pixels"]\<close>.
\<close>

definition scale :: "anchored_image \<Rightarrow> real \<Rightarrow> real option \<Rightarrow> store \<Rightarrow> error + anchored_image \<times> store" where
  "scale a factor max_pixels_arg st =
     (let reported = (case max_pixels_arg of
                        None \<Rightarrow> max_pixels (config a)
                      | Some m \<Rightarrow> if m \<noteq> 0 then m else max_pixels (config a));
          w = fst (size_img a st); h = snd (size_img a st);
          npx = real w * real h * factor ^ 2
      in if max_pixels (config a) < npx \<and> 0 < max_pixels (config a)
         then Inl (ValueError (ExceedsMaxPixels npx reported))
         else
           (case pil_resize (img a) (py_int (real w * factor), py_int (real h * factor))
                   (resampler (config a)) st of
              Inl e \<Rightarrow> Inl e
            | Inr (i, st') \<Rightarrow> Inr (a\<lparr>img := i\<rparr>, st')))"

text \<open>\<^verbatim>\<open>_zoom_in_box(factor, rounding = True)\<close> returns the corners and the box.\<close>

definition zoom_in_box ::
  "anchored_image \<Rightarrow> real \<Rightarrow> bool \<Rightarrow> store \<Rightarrow>
     error + ((real \<times> real) \<times> (real \<times> real)) \<times> (real \<times> real \<times> real \<times> real)" where
  "zoom_in_box a factor rounding st =
     (let w = real (fst (size_img a st)); h = real (snd (size_img a st))
      in if factor = 0 then Inl ZeroDivisionError
         else
           let ws = w / factor; hs = h / factor;
               rel_x = fst (rel_anchor a); rel_y = snd (rel_anchor a);
               ox = rel_x * w * (1 - 1 / factor);
               oy = rel_y * h * (1 - 1 / factor);
               ox' = (if rounding then of_int (py_round ox) else ox);
               oy' = (if rounding then of_int (py_round oy) else oy);
               ws' = (if rounding then of_int (py_round ws) else ws);
               hs' = (if rounding then of_int (py_round hs) else hs)
           in Inr (((ox', oy'), (ox' + ws', oy' + hs')), (ox', oy', ox' + ws', oy' + hs')))"

definition zoom_in :: "anchored_image \<Rightarrow> real \<Rightarrow> store \<Rightarrow> error + anchored_image \<times> store" where
  "zoom_in a factor st =
     (case zoom_in_box a factor True st of
        Inl e \<Rightarrow> Inl e
      | Inr (corners, box) \<Rightarrow>
          (case pil_crop (img a) box st of
             Inl e \<Rightarrow> Inl e
           | Inr (c, st1) \<Rightarrow>
               (case pil_resize c (int (fst (size_img a st)), int (snd (size_img a st)))
                       (resampler (config a)) st1 of
                  Inl e \<Rightarrow> Inl e
                | Inr (i, st2) \<Rightarrow> Inr (a\<lparr>img := i\<rparr>, st2))))"

definition anchor_absolute :: "anchored_image \<Rightarrow> store \<Rightarrow> real \<times> real" where
  "anchor_absolute a st =
     (real (fst (size_img a st)) * fst (rel_anchor a),
      real (snd (size_img a st)) * snd (rel_anchor a))"

text \<open>
  \<^verbatim>\<open>set_anchor_absolute(p)\<close>. The out-of-bounds branch is
  \<^verbatim>\<open>return ValueError(...)\<close>: the call returns the exception object as its value. The
  second component of the result is that return value, \<open>None\<close> for Python's
  \<^verbatim>\<open>None\<close>.
\<close>

definition set_anchor_absolute ::
  "anchored_image \<Rightarrow> real \<times> real \<Rightarrow> store \<Rightarrow> error + anchored_image \<times> error option" where
  "set_anchor_absolute a p st =
     (let x = fst p; y = snd p; w = fst (size_img a st); h = snd (size_img a st)
      in if real w < x \<or> real h < y
         then Inr (a, Some (ValueError (AnchorOutOfBounds p w h)))
         else
           (case py_truediv x (real w) of
              Inl e \<Rightarrow> Inl e
            | Inr rx \<Rightarrow>
                (case py_truediv y (real h) of
                   Inl e \<Rightarrow> Inl e
                 | Inr ry \<Rightarrow> Inr (a\<lparr>rel_anchor := (rx, ry)\<rparr>, None))))"

definition get_anchor_absolute :: "anchored_image \<Rightarrow> store \<Rightarrow> real \<times> real" where
  "get_anchor_absolute a st =
     (fst (rel_anchor a) * real (fst (size_img a st)),
      snd (rel_anchor a) * real (snd (size_img a st)))"

text \<open>What \<^verbatim>\<open>paste\<close> may be handed: an image, an anchored image, or anything else.\<close>

datatype pyobject = PILImage nat | Anchored anchored_image | OtherObject

definition paste :: "anchored_image \<Rightarrow> pyobject \<Rightarrow> (int \<times> int) option \<Rightarrow> store \<Rightarrow> error + store" where
  "paste a obj box st =
     (let off = (case box of None \<Rightarrow> (0, 0) | Some b \<Rightarrow> b)
      in case obj of
           PILImage j \<Rightarrow> Inr (pil_paste (img a) j off st)
         | Anchored b \<Rightarrow> Inr (pil_paste (img a) (img b) off st)
         | OtherObject \<Rightarrow> Inl (TypeError (Text ''Can only paste Image.Image or AnchoredImage'')))"

definition paste_aligned :: "anchored_image \<Rightarrow> anchored_image \<Rightarrow> store \<Rightarrow> error + anchored_image \<times> store" where
  "paste_aligned a b st =
     (let ax = fst (get_anchor_absolute a st); ay = snd (get_anchor_absolute a st);
          bx = fst (get_anchor_absolute b st); by' = snd (get_anchor_absolute b st);
          offset = (\<lceil>ax - bx\<rceil>, \<lceil>ay - by'\<rceil>)
      in case paste a (Anchored b) (Some offset) st of
           Inl e \<Rightarrow> Inl e
         | Inr st' \<Rightarrow> Inr (a, st'))"

text \<open>\<^verbatim>\<open>__deepcopy__\<close>: a new object around a copy of the image, built with the
  constructor's default configuration.\<close>

definition deepcopy :: "anchored_image \<Rightarrow> store \<Rightarrow> anchored_image \<times> store" where
  "deepcopy a st =
     (case pil_copy (img a) st of (i, st') \<Rightarrow> (AnchoredImage i (rel_anchor a) None, st'))"

section \<open>Frame files\<close>

text \<open>The format \<^verbatim>\<open>f"frame-{nframe:05d}.png"\<close>: the decimal digits of the index, filled
  with zeros on the left up to five characters.\<close>

definition digit_char :: "nat \<Rightarrow> char" where
  "digit_char d = ''0123456789'' ! d"

fun decimal :: "nat \<Rightarrow> string" where
  "decimal n = (if n < 10 then [digit_char n] else decimal (n div 10) @ [digit_char (n mod 10)])"

declare decimal.simps [simp del]

definition format_05d :: "nat \<Rightarrow> string" where
  "format_05d n = replicate (5 - length (decimal n)) (CHR ''0'') @ decimal n"

definition frame_file_name :: "nat \<Rightarrow> string" where
  "frame_file_name nframe = ''frame-'' @ format_05d nframe @ ''.png''"



section \<open>FrameWorker.make\_frame\<close>

record gc_params =
  preup :: real
  inner_scale :: real
  downscale :: real
  num_frames :: nat
  fps :: nat
  paste_within :: bool

definition default_params :: gc_params where
  "default_params =
     \<lparr>preup = 2, inner_scale = 4, downscale = 2, num_frames = 120, fps = 60,
      paste_within = True\<rparr>"

text \<open>
  The optional quality paste of \<^verbatim>\<open>make_frame\<close>: the \<^verbatim>\<open>try\<close> block. A
  \<^verbatim>\<open>ValueError\<close> is swallowed and leaves the store as it was when it was raised; any
  other exception goes on to the caller.
\<close>

definition paste_smaller ::
  "anchored_image \<Rightarrow> gc_params \<Rightarrow> anchored_image \<Rightarrow> real \<Rightarrow> store \<Rightarrow> error + store" where
  "paste_smaller nb ps frame mz st =
     (case deepcopy nb st of
        (smaller, st1) \<Rightarrow>
          (case py_truediv mz (inner_scale ps) of
             Inl e \<Rightarrow> Inl e
           | Inr k \<Rightarrow>
               (case scale smaller k None st1 of
                  Inl (ValueError m) \<Rightarrow> Inr st1
                | Inl e \<Rightarrow> Inl e
                | Inr (smaller', st2) \<Rightarrow>
                    (case paste_aligned frame smaller' st2 of
                       Inl (ValueError m) \<Rightarrow> Inr st2
                     | Inl e \<Rightarrow> Inl e
                     | Inr (frame', st3) \<Rightarrow> Inr st3))))"

text \<open>
  \<^verbatim>\<open>make_frame(nframe)\<close> run in a worker's memory \<open>st\<close>: the result is the name of
  the file written in the frame directory, the image saved there, and the memory
  afterwards. The worker holds whatever \<^verbatim>\<open>self.nested_base\<close> was when it was built;
  a deep copy of \<^verbatim>\<open>None\<close> is \<^verbatim>\<open>None\<close>, which has no method \<^verbatim>\<open>zoom_in\<close>.
\<close>

definition make_frame ::
  "anchored_image option \<Rightarrow> gc_params \<Rightarrow> nat \<Rightarrow> store \<Rightarrow> error + (string \<times> image) \<times> store" where
  "make_frame nested ps nframe st =
     (case py_truediv 1 (real (num_frames ps) - 1) of
        Inl e \<Rightarrow> Inl e
      | Inr ex \<Rightarrow>
     (case py_pow (inner_scale ps) ex of
        Inl e \<Rightarrow> Inl e
      | Inr zoom \<Rightarrow>
     (case py_pow zoom (real nframe - 1) of
        Inl e \<Rightarrow> Inl e
      | Inr mz \<Rightarrow>
     (case nested of
        None \<Rightarrow> Inl (AttributeError ''zoom_in'')
      | Some nb \<Rightarrow>
     (case deepcopy nb st of
        (frame, st1) \<Rightarrow>
     (case zoom_in frame mz st1 of
        Inl e \<Rightarrow> Inl e
      | Inr (frame1, st2) \<Rightarrow>
     (case (if paste_within ps then paste_smaller nb ps frame1 mz st2 else Inr st2) of
        Inl e \<Rightarrow> Inl e
      | Inr st3 \<Rightarrow>
     (case py_truediv 1 (downscale ps) of
        Inl e \<Rightarrow> Inl e
      | Inr k \<Rightarrow>
     (case scale frame1 k None st3 of
        Inl e \<Rightarrow> Inl e
      | Inr (frame2, st4) \<Rightarrow>
          Inr ((frame_file_name nframe, st4 ! img frame2), st4))))))))))"

section \<open>Gifception\<close>

record gc_config =
  gc_max_pixels :: real
  num_processes :: nat

definition default_gc_config :: gc_config where
  "default_gc_config = \<lparr>gc_max_pixels = 800000000, num_processes = 1\<rparr>"

text \<open>
  An instance attribute is absent until an assignment binds it; reading an absent
  attribute raises \<^verbatim>\<open>AttributeError\<close>. The attributes \<^verbatim>\<open>qin\<close> and \<^verbatim>\<open>qout\<close>,
  once bound, refer to the queues of the run; the value \<^verbatim>\<open>None\<close> is what
  \<^verbatim>\<open>wait_for_frames\<close> tests for.
\<close>

datatype 'a pyattr = Absent | Bound 'a

datatype queue_ref = PyNone | QueueRef

record gifception =
  base_image :: anchored_image
  config_gc :: gc_config
  params_gc :: gc_params
  nested_base :: "anchored_image option"
  frame_workers :: "nat set"
  qin :: "queue_ref pyattr"
  qout :: "queue_ref pyattr"

text \<open>
  Name lookup in the body of \<^verbatim>\<open>load_image(self, img)\<close>: its two local names, then
  the names bound at module level (the imports and the four classes and one function the
  module defines), none of which is an image.
\<close>

definition load_image_scope :: "pyobject \<Rightarrow> (string \<times> pyobject) list" where
  "load_image_scope img_arg =
     [(''self'', OtherObject), (''img'', img_arg)] @
     map (\<lambda>n. (n, OtherObject))
       [''Image'', ''ImageDraw'', ''sys'', ''os'', ''operator'', ''math'', ''copy'',
        ''Process'', ''Queue'', ''TemporaryDirectory'', ''GifceptionException'',
        ''AnchoredImage'', ''FrameWorker'', ''Gifception'', ''test'']"

definition resolve_name :: "string \<Rightarrow> (string \<times> pyobject) list \<Rightarrow> error + pyobject" where
  "resolve_name n scope = (case map_of scope n of None \<Rightarrow> Inl (NameError n) | Some v \<Rightarrow> Inr v)"

text \<open>
  \<^verbatim>\<open>load_image(img)\<close> returns the value it binds \<^verbatim>\<open>self.base_image\<close> to. Its
  first branch builds \<^verbatim>\<open>AnchoredImage(imge)\<close>, so it looks the name \<^verbatim>\<open>imge\<close> up.
  (A wrapper around something that is not an image would fail at its first use; no name
  of the scope is bound that way, the case is there for totality.)
\<close>

definition load_image :: "pyobject \<Rightarrow> error + anchored_image" where
  "load_image img_arg =
     (case img_arg of
        PILImage i \<Rightarrow>
          (case resolve_name ''imge'' (load_image_scope img_arg) of
             Inl e \<Rightarrow> Inl e
           | Inr (PILImage j) \<Rightarrow> Inr (AnchoredImage j (1 / 2, 1 / 2) None)
           | Inr other \<Rightarrow> Inl (AttributeError ''width''))
      | Anchored a \<Rightarrow> Inr a
      | OtherObject \<Rightarrow> Inl (TypeError (Text ''Need an Image or AnchoredImage!'')))"

text \<open>\<^verbatim>\<open>Gifception.__init__\<close>: no assignment to \<^verbatim>\<open>qin\<close> or \<^verbatim>\<open>qout\<close>.\<close>

definition Gifception ::
  "pyobject \<Rightarrow> gc_config option \<Rightarrow> gc_params option \<Rightarrow> error + gifception" where
  "Gifception base cfg ps =
     (case load_image base of
        Inl e \<Rightarrow> Inl e
      | Inr b \<Rightarrow>
          Inr \<lparr>base_image = b,
               config_gc = (case cfg of None \<Rightarrow> default_gc_config | Some c \<Rightarrow> c),
               params_gc = (case ps of None \<Rightarrow> default_params | Some q \<Rightarrow> q),
               nested_base = None, frame_workers = {}, qin = Absent, qout = Absent\<rparr>)"

subsection \<open>The nested base\<close>

text \<open>
  The loop of \<^verbatim>\<open>prepare_nested_base\<close>, with fuel: \<open>None\<close> is a loop still running
  when the fuel is spent. One round pastes \<^verbatim>\<open>mini\<close> and then shrinks it; a
  \<^verbatim>\<open>ValueError\<close> from either ends the loop with the state as it is then, any other
  exception leaves the function.
\<close>

fun grow ::
  "nat \<Rightarrow> real \<Rightarrow> anchored_image \<Rightarrow> anchored_image \<Rightarrow> real \<Rightarrow> store \<Rightarrow>
     (error + anchored_image \<times> anchored_image \<times> real \<times> store) option" where
  "grow 0 s nb mini true_scale st = None"
| "grow (Suc fuel) s nb mini true_scale st =
     (case paste_aligned nb mini st of
        Inl (ValueError m) \<Rightarrow> Some (Inr (nb, mini, true_scale, st))
      | Inl e \<Rightarrow> Some (Inl e)
      | Inr (nb1, st1) \<Rightarrow>
          (case scale mini s None st1 of
             Inl (ValueError m) \<Rightarrow> Some (Inr (nb1, mini, true_scale, st1))
           | Inl e \<Rightarrow> Some (Inl e)
           | Inr (mini1, st2) \<Rightarrow> grow fuel s nb1 mini1 (true_scale * s) st2))"

text \<open>
  \<^verbatim>\<open>prepare_nested_base\<close>. Where it raises, the result is the exception alone: what
  the call had assigned by then (\<^verbatim>\<open>self.nested_base\<close> bound to the copy not yet
  scaled) is not carried in the result.
\<close>

definition prepare_nested_base ::
  "nat \<Rightarrow> gifception \<Rightarrow> store \<Rightarrow> (error + gifception \<times> store) option" where
  "prepare_nested_base fuel g st =
     (case deepcopy (base_image g) st of
        (nb0, st1) \<Rightarrow>
     (case scale nb0 (preup (params_gc g)) None st1 of
        Inl e \<Rightarrow> Some (Inl e)
      | Inr (nb1, st2) \<Rightarrow>
     (case deepcopy (base_image g) st2 of
        (mini0, st3) \<Rightarrow>
     (case py_truediv 1 (inner_scale (params_gc g)) of
        Inl e \<Rightarrow> Some (Inl e)
      | Inr s \<Rightarrow>
     (case scale mini0 (preup (params_gc g) * s) None st3 of
        Inl e \<Rightarrow> Some (Inl e)
      | Inr (mini1, st4) \<Rightarrow>
     (case grow fuel s nb1 mini1 s st4 of
        None \<Rightarrow> None
      | Some (Inl e) \<Rightarrow> Some (Inl e)
      | Some (Inr (nb, mini, true_scale, st5)) \<Rightarrow>
          Some (Inr (g\<lparr>nested_base := Some nb\<rparr>, st5))))))))"

subsection \<open>Workers, queues and the frame directory\<close>

text \<open>
  A run is the two queues, the worker processes and the frame directory. Each worker is a
  process of its own with its own memory, a copy of the parent's when it was started; the
  queues and the directory are what the processes share. A queue item is a frame index
  or \<^verbatim>\<open>None\<close>.

  \<^verbatim>\<open>FrameWorker.run\<close> is cut into the steps at which a worker touches something
  shared: it takes an item from \<^verbatim>\<open>qin\<close> (and waits while there is none), it renders
  and saves the frame it holds, it puts an item on \<^verbatim>\<open>qout\<close> (and waits while the
  queue is full). An exception in \<^verbatim>\<open>make_frame\<close> ends the process.
\<close>

datatype activity =
    Waiting
  | Rendering nat
  | Reporting "nat option"
  | Finished
  | Died error

record worker =
  w_nested_base :: "anchored_image option"
  w_params :: gc_params
  num :: nat
  activity :: activity
  memory :: store

record system =
  qin_items :: "nat option list"
  qout_items :: "nat option list"
  capacity :: nat
  workers :: "worker list"
  out_dir :: "string \<rightharpoonup> image"

text \<open>\<^verbatim>\<open>Queue(maxsize)\<close>: a size of zero is no bound.\<close>

definition can_put :: "nat \<Rightarrow> 'a list \<Rightarrow> bool" where
  "can_put cap q \<longleftrightarrow> cap = 0 \<or> length q < cap"

definition worker_step :: "nat \<Rightarrow> system \<Rightarrow> system option" where
  "worker_step p s =
     (if length (workers s) \<le> p then None
      else
        let w = workers s ! p
        in case activity w of
             Waiting \<Rightarrow>
               (case qin_items s of
                  [] \<Rightarrow> None
                | Some nframe # rest \<Rightarrow>
                    Some (s\<lparr>qin_items := rest,
                            workers := (workers s)[p := w\<lparr>activity := Rendering nframe\<rparr>]\<rparr>)
                | None # rest \<Rightarrow>
                    Some (s\<lparr>qin_items := rest,
                            workers := (workers s)[p := w\<lparr>activity := Reporting None\<rparr>]\<rparr>))
           | Rendering nframe \<Rightarrow>
               (case make_frame (w_nested_base w) (w_params w) nframe (memory w) of
                  Inl e \<Rightarrow> Some (s\<lparr>workers := (workers s)[p := w\<lparr>activity := Died e\<rparr>]\<rparr>)
                | Inr ((name, im), m) \<Rightarrow>
                    Some (s\<lparr>out_dir := (out_dir s)(name \<mapsto> im),
                            workers := (workers s)
                              [p := w\<lparr>activity := Reporting (Some nframe), memory := m\<rparr>]\<rparr>))
           | Reporting item \<Rightarrow>
               (if can_put (capacity s) (qout_items s)
                then Some (s\<lparr>qout_items := qout_items s @ [item],
                             workers := (workers s)
                               [p := w\<lparr>activity :=
                                        (case item of None \<Rightarrow> Finished | Some i \<Rightarrow> Waiting)\<rparr>]\<rparr>)
                else None)
           | Finished \<Rightarrow> None
           | Died e \<Rightarrow> None)"

text \<open>A schedule names the worker that moves next; a worker that cannot move makes the
  schedule impossible.\<close>

fun run_workers :: "nat list \<Rightarrow> system \<Rightarrow> system option" where
  "run_workers [] s = Some s"
| "run_workers (p # sched) s =
     (case worker_step p s of None \<Rightarrow> None | Some s' \<Rightarrow> run_workers sched s')"

definition alive :: "worker \<Rightarrow> bool" where
  "alive w \<longleftrightarrow> (case activity w of Finished \<Rightarrow> False | Died e \<Rightarrow> False | _ \<Rightarrow> True)"

definition no_run :: system where
  "no_run = \<lparr>qin_items = [], qout_items = [], capacity = 0, workers = [], out_dir = Map.empty\<rparr>"

text \<open>The second half of \<^verbatim>\<open>start_making_frames\<close>: the directory, the queues filled
  with the frame indices and one \<^verbatim>\<open>None\<close> for each worker, the workers started.\<close>

definition launch :: "gifception \<Rightarrow> store \<Rightarrow> gifception \<times> system" where
  "launch g st =
     (let nt = num_processes (config_gc g); nf = num_frames (params_gc g)
      in (g\<lparr>qin := Bound QueueRef, qout := Bound QueueRef,
            frame_workers := frame_workers g \<union> set [1..<Suc nt]\<rparr>,
          \<lparr>qin_items = map Some [1..<Suc nf] @ replicate nt None,
           qout_items = [],
           capacity = nt + nf,
           workers = map (\<lambda>pn. \<lparr>w_nested_base = nested_base g, w_params = params_gc g,
                                 num = pn, activity = Waiting, memory = st\<rparr>) [1..<Suc nt],
           out_dir = Map.empty\<rparr>))"

definition start_making_frames ::
  "nat \<Rightarrow> gifception \<Rightarrow> store \<Rightarrow> (error + gifception \<times> system) option" where
  "start_making_frames fuel g st =
     (if frame_workers g \<noteq> {}
      then Some (Inl (GifceptionException ''Frame generation still in progress!''))
      else case nested_base g of
             None \<Rightarrow>
               (case prepare_nested_base fuel g st of
                  None \<Rightarrow> None
                | Some (Inl e) \<Rightarrow> Some (Inl e)
                | Some (Inr (g1, st1)) \<Rightarrow> Some (Inr (launch g1 st1)))
           | Some nb \<Rightarrow> Some (Inr (launch g st)))"

text \<open>
  \<^verbatim>\<open>wait_for_frames(timeout = None)\<close> at a state of the run. Without a timeout
  \<^verbatim>\<open>join\<close> returns only once the process has ended, so the call has no result
  (\<open>None\<close>) while a worker it waits for is alive.
\<close>

definition wait_for_frames ::
  "real option \<Rightarrow> gifception \<Rightarrow> system \<Rightarrow> (error + gifception) option" where
  "wait_for_frames timeout g s =
     (case qin g of
        Absent \<Rightarrow> Some (Inl (AttributeError ''qin''))
      | Bound PyNone \<Rightarrow>
          Some (Inl (GifceptionException ''No frame-generating process was ever started!''))
      | Bound QueueRef \<Rightarrow>
          if timeout = None \<and> (\<exists>w \<in> set (workers s). num w \<in> frame_workers g \<and> alive w)
          then None
          else if qin_items s \<noteq> []
          then Some (Inl (GifceptionException ''Not all frames were consumed!''))
          else
            (case qout g of
               Absent \<Rightarrow> Some (Inl (AttributeError ''qout''))
             | Bound r \<Rightarrow>
                 if length (qout_items s) \<noteq>
                      num_processes (config_gc g) + num_frames (params_gc g)
                 then Some (Inl (GifceptionException ''Not all frames were produced!''))
                 else Some (Inr (g\<lparr>frame_workers := {}\<rparr>))))"

text \<open>
  \<^verbatim>\<open>make_frames()\<close>: start, let the workers run as the schedule says, wait. The result
  is the object and the contents of the frame directory.
\<close>

definition make_frames ::
  "nat \<Rightarrow> nat list \<Rightarrow> gifception \<Rightarrow> store \<Rightarrow>
     (error + gifception \<times> (string \<rightharpoonup> image)) option" where
  "make_frames fuel sched g st =
     (case start_making_frames fuel g st of
        None \<Rightarrow> None
      | Some (Inl e) \<Rightarrow> Some (Inl e)
      | Some (Inr (g1, s0)) \<Rightarrow>
          (case run_workers sched s0 of
             None \<Rightarrow> None
           | Some s1 \<Rightarrow>
               (case wait_for_frames None g1 s1 of
                  None \<Rightarrow> None
                | Some (Inl e) \<Rightarrow> Some (Inl e)
                | Some (Inr g2) \<Rightarrow> Some (Inr (g2, out_dir s1)))))"

section \<open>Example objects\<close>

text \<open>A store with one 10 by 10 picture and an anchored image around it, used where a
  statement is evaluated at a concrete input.\<close>

definition st0 :: store where
  "st0 = [\<lparr>width = 10, height = 10, raster = Raw 0\<rparr>]"

definition a0 :: anchored_image where
  "a0 = AnchoredImage 0 (1 / 2, 1 / 2) None"






text \<open>
  What makes every frame renderable from a nested base \<open>B\<close>: the base has pixels, the
  zoom is a positive real, and the final \<^verbatim>\<open>scale(1 / downscale)\<close> stays within the
  default pixel limit of the deep copy and leaves at least one pixel each way.
\<close>

definition renderable :: "image \<Rightarrow> gc_params \<Rightarrow> bool" where
  "renderable B ps \<longleftrightarrow>
     1 \<le> width B \<and> 1 \<le> height B \<and> 0 < inner_scale ps \<and> 2 \<le> num_frames ps
     \<and> downscale ps \<noteq> 0
     \<and> real (width B) * real (height B) * (1 / downscale ps) ^ 2 \<le> 800000000
     \<and> 1 \<le> py_int (real (width B) * (1 / downscale ps))
     \<and> 1 \<le> py_int (real (height B) * (1 / downscale ps))"

text \<open>
  Bookkeeping for a run. The frame indices of a queue and its number of stop markers; for
  a worker, the frame it holds, whether its stop marker is still to come, whether it sits
  between taking an item and reporting it, and how many steps it is from being idle.
\<close>

fun frames_of :: "nat option list \<Rightarrow> nat list" where
  "frames_of [] = []"
| "frames_of (None # xs) = frames_of xs"
| "frames_of (Some i # xs) = i # frames_of xs"

definition stops_of :: "nat option list \<Rightarrow> nat" where
  "stops_of xs = length (filter (\<lambda>x. x = None) xs)"

definition held :: "activity \<Rightarrow> nat multiset" where
  "held a = (case a of Rendering i \<Rightarrow> {#i#} | Reporting (Some i) \<Rightarrow> {#i#} | _ \<Rightarrow> {#})"

definition owes_stop :: "activity \<Rightarrow> nat" where
  "owes_stop a =
     (case a of Waiting \<Rightarrow> 1 | Rendering i \<Rightarrow> 1 | Reporting (Some i) \<Rightarrow> 1 | _ \<Rightarrow> 0)"

definition busy :: "activity \<Rightarrow> nat" where
  "busy a = (case a of Rendering i \<Rightarrow> 1 | Reporting item \<Rightarrow> 1 | _ \<Rightarrow> 0)"

definition effort :: "activity \<Rightarrow> nat" where
  "effort a = (case a of Rendering i \<Rightarrow> 2 | Reporting item \<Rightarrow> 1 | _ \<Rightarrow> 0)"

definition pool_measure :: "system \<Rightarrow> nat" where
  "pool_measure s =
     3 * length (qin_items s) + sum_list (map (\<lambda>w. effort (activity w)) (workers s))"

definition all_finished :: "system \<Rightarrow> bool" where
  "all_finished s \<longleftrightarrow> list_all (\<lambda>w. activity w = Finished) (workers s)"

definition frame_size_ok :: "image \<Rightarrow> gc_params \<Rightarrow> image \<Rightarrow> bool" where
  "frame_size_ok B ps im \<longleftrightarrow>
     int (width im) = py_int (real (width B) * (1 / downscale ps))
     \<and> int (height im) = py_int (real (height B) * (1 / downscale ps))"

definition worker_inv ::
  "nat \<Rightarrow> anchored_image \<Rightarrow> gc_params \<Rightarrow> image \<Rightarrow> (string \<rightharpoonup> image) \<Rightarrow> worker \<Rightarrow> bool" where
  "worker_inv N nb ps B dir w \<longleftrightarrow>
     w_nested_base w = Some nb \<and> w_params w = ps
     \<and> img nb < length (memory w) \<and> memory w ! img nb = B
     \<and> (case activity w of
           Died e \<Rightarrow> False
         | Rendering i \<Rightarrow> 1 \<le> i \<and> i \<le> N
         | Reporting (Some i) \<Rightarrow> frame_file_name i \<in> dom dir
         | _ \<Rightarrow> True)"

definition pool_inv ::
  "nat \<Rightarrow> nat \<Rightarrow> anchored_image \<Rightarrow> gc_params \<Rightarrow> image \<Rightarrow> system \<Rightarrow> bool" where
  "pool_inv N P nb ps B s \<longleftrightarrow>
     length (workers s) = P \<and> capacity s = P + N
     \<and> list_all (worker_inv N nb ps B (out_dir s)) (workers s)
     \<and> (qin_items s = [] \<or> last (qin_items s) = None)
     \<and> list_all (\<lambda>i. 1 \<le> i \<and> i \<le> N) (frames_of (qin_items s))
     \<and> mset (frames_of (qin_items s)) + sum_list (map (\<lambda>w. held (activity w)) (workers s))
           + mset (frames_of (qout_items s)) = mset [1..<Suc N]
     \<and> stops_of (qin_items s) = sum_list (map (\<lambda>w. owes_stop (activity w)) (workers s))
     \<and> length (qin_items s) + length (qout_items s)
           + sum_list (map (\<lambda>w. busy (activity w)) (workers s)) = N + P
     \<and> list_all (\<lambda>i. frame_file_name i \<in> dom (out_dir s)) (frames_of (qout_items s))
     \<and> dom (out_dir s) \<subseteq> frame_file_name ` {1..N}
     \<and> ran (out_dir s) \<subseteq> Collect (frame_size_ok B ps)"

text \<open>The scenario of the specification: an 800 by 600 picture, five frames, three
  workers.\<close>

definition st8 :: store where
  "st8 = [\<lparr>width = 800, height = 600, raster = Raw 0\<rparr>]"

definition params8 :: gc_params where
  "params8 = \<lparr>preup = 2, inner_scale = 4, downscale = 2, num_frames = 5, fps = 60,
               paste_within = True\<rparr>"

definition config8 :: gc_config where
  "config8 = \<lparr>gc_max_pixels = 800000000, num_processes = 3\<rparr>"

definition g8 :: gifception where
  "g8 = \<lparr>base_image = a0, config_gc = config8, params_gc = params8,
          nested_base = None, frame_workers = {}, qin = Absent, qout = Absent\<rparr>"

text \<open>A picture of a single pixel.\<close>

definition st1 :: store where
  "st1 = [\<lparr>width = 1, height = 1, raster = Raw 0\<rparr>]"

section \<open>Properties of the anchored image\<close>

lemma py_round_of_int [simp]: "py_round (of_int n) = n"
  by (simp add: py_round_def)

lemma py_round_of_nat [simp]: "py_round (real n) = int n"
  using py_round_of_int [of "int n"] by simp

lemma py_round_zero [simp]: "py_round 0 = 0"
  using py_round_of_int [of 0] by simp

lemma pil_resize_frame:
  "pil_resize i sz f st = Inr (j, st') \<Longrightarrow> j = length st \<and> length st' = Suc (length st) \<and> (\<forall>k<length st. st' ! k = st ! k)"
  by (auto simp: pil_resize_def pil_copy_def Let_def nth_append split: if_splits)

lemma pil_crop_frame:
  "pil_crop i box st = Inr (j, st') \<Longrightarrow> j = length st \<and> length st' = Suc (length st) \<and> (\<forall>k<length st. st' ! k = st ! k)"
  by (auto simp: pil_crop_def Let_def nth_append split: if_splits prod.splits)

lemma scale_frame:
  "scale a f mp st = Inr (a', st') \<Longrightarrow> img a' = length st \<and> length st' = Suc (length st) \<and> (\<forall>k<length st. st' ! k = st ! k) \<and> rel_anchor a' = rel_anchor a \<and> config a' = config a"
  by (auto simp: scale_def Let_def split: if_splits sum.splits dest!: pil_resize_frame)

lemma zoom_in_frame:
  "zoom_in a f st = Inr (a', st') \<Longrightarrow> img a' = Suc (length st) \<and> length st' = Suc (Suc (length st)) \<and> (\<forall>k<length st. st' ! k = st ! k) \<and> rel_anchor a' = rel_anchor a \<and> config a' = config a"
  by (auto simp: zoom_in_def Let_def split: if_splits sum.splits prod.splits dest!: pil_resize_frame pil_crop_frame)

lemma paste_frame:
  "paste a obj box st = Inr st' \<Longrightarrow> length st' = length st \<and> (\<forall>k. k \<noteq> img a \<longrightarrow> st' ! k = st ! k)
     \<and> width (st' ! img a) = width (st ! img a) \<and> height (st' ! img a) = height (st ! img a)"
  by (cases "img a < length st")
     (auto simp: paste_def pil_paste_def Let_def list_update_beyond split: pyobject.splits)

lemma paste_aligned_frame:
  "paste_aligned a b st = Inr (a', st') \<Longrightarrow> a' = a \<and> length st' = length st \<and> (\<forall>k. k \<noteq> img a \<longrightarrow> st' ! k = st ! k)
     \<and> size_img a st' = size_img a st"
  by (auto simp: paste_aligned_def Let_def size_img_def split: sum.splits dest!: paste_frame)

lemma pil_resize_error:
  "pil_resize i sz f st = Inl e \<Longrightarrow> e = ValueError HeightAndWidthMustBePositive"
  by (auto simp: pil_resize_def Let_def split: if_splits)

lemma scale_error:
  "scale a factor mp st = Inl e \<Longrightarrow>
     e = ValueError HeightAndWidthMustBePositive
       \<and> \<not> (max_pixels (config a) < real (fst (size_img a st)) * real (snd (size_img a st)) * factor ^ 2
             \<and> 0 < max_pixels (config a))
     \<or> e = ValueError (ExceedsMaxPixels
              (real (fst (size_img a st)) * real (snd (size_img a st)) * factor ^ 2)
              (case mp of None \<Rightarrow> max_pixels (config a)
                 | Some m \<Rightarrow> if m \<noteq> 0 then m else max_pixels (config a)))
       \<and> max_pixels (config a) < real (fst (size_img a st)) * real (snd (size_img a st)) * factor ^ 2
       \<and> 0 < max_pixels (config a)"
  unfolding scale_def Let_def
  by (auto split: sum.splits if_splits prod.splits dest: pil_resize_error)



text \<open>
  Claim C7. \<^verbatim>\<open>zoom_in(1)\<close>: the box computed is \<open>(0, 0, w, h)\<close>; the call succeeds;
  the new image is the crop by that whole box, given back by \<^verbatim>\<open>resize\<close> as a copy
  since it has the size asked for, so no resampling is applied; the size and the relative
  anchor are what they were.
\<close>

theorem zoom_in_one:
  "zoom_in_box a 1 True st =
     Inr (((0, 0), (real (fst (size_img a st)), real (snd (size_img a st)))),
          (0, 0, real (fst (size_img a st)), real (snd (size_img a st))))
   \<and> zoom_in a 1 st =
       Inr (a\<lparr>img := Suc (length st)\<rparr>,
            st @ [\<lparr>width = fst (size_img a st), height = snd (size_img a st),
                    raster = Cropped (raster (st ! img a))
                      (0, 0, int (fst (size_img a st)), int (snd (size_img a st)))\<rparr>,
                  \<lparr>width = fst (size_img a st), height = snd (size_img a st),
                    raster = Cropped (raster (st ! img a))
                      (0, 0, int (fst (size_img a st)), int (snd (size_img a st)))\<rparr>])
   \<and> size_img (a\<lparr>img := Suc (length st)\<rparr>)
        (st @ [\<lparr>width = fst (size_img a st), height = snd (size_img a st),
                    raster = Cropped (raster (st ! img a))
                      (0, 0, int (fst (size_img a st)), int (snd (size_img a st)))\<rparr>,
                  \<lparr>width = fst (size_img a st), height = snd (size_img a st),
                    raster = Cropped (raster (st ! img a))
                      (0, 0, int (fst (size_img a st)), int (snd (size_img a st)))\<rparr>]) = size_img a st
   \<and> rel_anchor (a\<lparr>img := Suc (length st)\<rparr>) = rel_anchor a"
  by (simp add: zoom_in_def zoom_in_box_def pil_crop_def pil_resize_def pil_copy_def Let_def size_img_def nth_append)



text \<open>The other way \<^verbatim>\<open>scale\<close> raises, whatever the limit: a target without pixels.\<close>

lemma scale_empty_target_raises:
  "scale (a0\<lparr>config := \<lparr>max_pixels = 0, resampler = NEAREST\<rparr>\<rparr>) (1 / 20) None st0
     = Inl (ValueError HeightAndWidthMustBePositive)"
  by (simp add: scale_def a0_def st0_def AnchoredImage_def size_img_def pil_resize_def
      py_int_def Let_def)


text \<open>
  Claim C3. A successful \<^verbatim>\<open>scale\<close>, \<^verbatim>\<open>zoom_in\<close> or \<^verbatim>\<open>paste_aligned\<close> leaves
  the relative anchor as it was, and \<^verbatim>\<open>anchor_absolute()\<close> afterwards is that relative
  anchor multiplied, component by component, by the size the image has then.
\<close>

theorem anchor_invariant:
  "(scale a factor mp st = Inr (a', st') \<longrightarrow>
      rel_anchor a' = rel_anchor a
      \<and> anchor_absolute a' st' =
          (real (fst (size_img a' st')) * fst (rel_anchor a),
           real (snd (size_img a' st')) * snd (rel_anchor a)))
   \<and> (zoom_in a factor st = Inr (a', st') \<longrightarrow>
      rel_anchor a' = rel_anchor a
      \<and> anchor_absolute a' st' =
          (real (fst (size_img a' st')) * fst (rel_anchor a),
           real (snd (size_img a' st')) * snd (rel_anchor a)))
   \<and> (paste_aligned a b st = Inr (a', st') \<longrightarrow>
      rel_anchor a' = rel_anchor a
      \<and> anchor_absolute a' st' =
          (real (fst (size_img a' st')) * fst (rel_anchor a),
           real (snd (size_img a' st')) * snd (rel_anchor a)))"
  by (auto simp: anchor_absolute_def dest!: scale_frame zoom_in_frame paste_aligned_frame)

text \<open>
  The statement at the 10 by 10 image scaled by two.
\<close>

theorem anchor_invariant_witness:
  "scale a0 2 None st0 =
     Inr (a0\<lparr>img := 1\<rparr>, st0 @ [\<lparr>width = 20, height = 20, raster = Resampled (Raw 0) (20, 20) BICUBIC\<rparr>])
   \<and> rel_anchor (a0\<lparr>img := 1\<rparr>) = rel_anchor a0
   \<and> anchor_absolute (a0\<lparr>img := 1\<rparr>)
        (st0 @ [\<lparr>width = 20, height = 20, raster = Resampled (Raw 0) (20, 20) BICUBIC\<rparr>]) = (10, 10)"
  using anchor_invariant [of a0 2 None st0 "a0\<lparr>img := 1\<rparr>"
      "st0 @ [\<lparr>width = 20, height = 20, raster = Resampled (Raw 0) (20, 20) BICUBIC\<rparr>]"]
  by (simp add: a0_def st0_def AnchoredImage_def default_config_def size_img_def scale_def
      pil_resize_def py_int_def anchor_absolute_def)

text \<open>
  Claim C6. A point to the right of a 10 by 10 image: \<^verbatim>\<open>set_anchor_absolute\<close> does
  not raise. It returns, and the value it returns is the exception object; the relative
  anchor is as before.
\<close>

theorem set_anchor_absolute_returns_exception:
  "set_anchor_absolute a0 (11, 5) st0 = Inr (a0, Some (ValueError (AnchorOutOfBounds (11, 5) 10 10)))"
  by (simp add: set_anchor_absolute_def a0_def st0_def size_img_def AnchoredImage_def)

text \<open>A point above and left of the image passes the test \<^verbatim>\<open>x > w or y > h\<close> and
  becomes the anchor.\<close>

lemma set_anchor_absolute_negative_accepted:
  "set_anchor_absolute a0 (- 1, - 1) st0 = Inr (a0\<lparr>rel_anchor := (- 1 / 10, - 1 / 10)\<rparr>, None)"
  by (simp add: set_anchor_absolute_def a0_def st0_def size_img_def AnchoredImage_def py_truediv_def)

text \<open>
  Claim C9. The deep copy of an anchored image whose image is in the store: a new
  image object with the same content, the same relative anchor, and the default
  configuration (\<^verbatim>\<open>max_pixels\<close> 8e8, bicubic) whatever the original's was. No paste,
  aligned paste, scale or zoom on one of the two changes the image of the other.
\<close>

theorem deepcopy_independent:
  "img a < length st \<and> deepcopy a st = (b, st') \<longrightarrow>
     img b \<noteq> img a \<and> img b < length st'
     \<and> st' ! img b = st ! img a \<and> st' ! img a = st ! img a
     \<and> rel_anchor b = rel_anchor a
     \<and> config b = default_config
     \<and> max_pixels (config b) = 800000000 \<and> resampler (config b) = BICUBIC
     \<and> (\<forall>obj box st''. paste b obj box st' = Inr st'' \<longrightarrow> st'' ! img a = st ! img a)
     \<and> (\<forall>obj box st''. paste a obj box st' = Inr st'' \<longrightarrow> st'' ! img b = st ! img a)
     \<and> (\<forall>x b' st''. paste_aligned b x st' = Inr (b', st'') \<longrightarrow> st'' ! img a = st ! img a)
     \<and> (\<forall>x a' st''. paste_aligned a x st' = Inr (a', st'') \<longrightarrow> st'' ! img b = st ! img a)
     \<and> (\<forall>f mp b' st''. scale b f mp st' = Inr (b', st'') \<longrightarrow> st'' ! img a = st ! img a)
     \<and> (\<forall>f mp a' st''. scale a f mp st' = Inr (a', st'') \<longrightarrow> st'' ! img b = st ! img a)
     \<and> (\<forall>f b' st''. zoom_in b f st' = Inr (b', st'') \<longrightarrow> st'' ! img a = st ! img a)
     \<and> (\<forall>f a' st''. zoom_in a f st' = Inr (a', st'') \<longrightarrow> st'' ! img b = st ! img a)"
proof (intro impI, elim conjE)
  assume v: "img a < length st" and d: "deepcopy a st = (b, st')"
  from d have b: "b = AnchoredImage (length st) (rel_anchor a) None" and s: "st' = st @ [st ! img a]"
    by (auto simp: deepcopy_def pil_copy_def)
  have ib: "img b = length st" by (simp add: b AnchoredImage_def)
  have l: "length st' = Suc (length st)" by (simp add: s)
  have sa: "st' ! img a = st ! img a" using v by (simp add: s nth_append)
  have sb: "st' ! img b = st ! img a" by (simp add: s ib)
  have ne: "img b \<noteq> img a" using v ib by simp
  have 1: "paste b obj box st' = Inr st'' \<Longrightarrow> st'' ! img a = st ! img a" for obj box st''
    using ne sa by (auto dest!: paste_frame)
  have 2: "paste a obj box st' = Inr st'' \<Longrightarrow> st'' ! img b = st ! img a" for obj box st''
    using ne sb by (auto dest!: paste_frame)
  have 3: "paste_aligned b x st' = Inr (b', st'') \<Longrightarrow> st'' ! img a = st ! img a" for x b' st''
    using ne sa by (auto dest!: paste_aligned_frame)
  have 4: "paste_aligned a x st' = Inr (a', st'') \<Longrightarrow> st'' ! img b = st ! img a" for x a' st''
    using ne sb by (auto dest!: paste_aligned_frame)
  have 5: "scale x f mp st' = Inr (x', st'') \<Longrightarrow> st'' ! img a = st ! img a \<and> st'' ! img b = st ! img a"
    for x f mp x' st''
    using v ib l sa sb by (auto dest!: scale_frame)
  have 6: "zoom_in x f st' = Inr (x', st'') \<Longrightarrow> st'' ! img a = st ! img a \<and> st'' ! img b = st ! img a"
    for x f x' st''
    using v ib l sa sb by (auto dest!: zoom_in_frame)
  have c: "config b = default_config" by (simp add: b AnchoredImage_def)
  show "img b \<noteq> img a \<and> img b < length st'
     \<and> st' ! img b = st ! img a \<and> st' ! img a = st ! img a
     \<and> rel_anchor b = rel_anchor a
     \<and> config b = default_config
     \<and> max_pixels (config b) = 800000000 \<and> resampler (config b) = BICUBIC
     \<and> (\<forall>obj box st''. paste b obj box st' = Inr st'' \<longrightarrow> st'' ! img a = st ! img a)
     \<and> (\<forall>obj box st''. paste a obj box st' = Inr st'' \<longrightarrow> st'' ! img b = st ! img a)
     \<and> (\<forall>x b' st''. paste_aligned b x st' = Inr (b', st'') \<longrightarrow> st'' ! img a = st ! img a)
     \<and> (\<forall>x a' st''. paste_aligned a x st' = Inr (a', st'') \<longrightarrow> st'' ! img b = st ! img a)
     \<and> (\<forall>f mp b' st''. scale b f mp st' = Inr (b', st'') \<longrightarrow> st'' ! img a = st ! img a)
     \<and> (\<forall>f mp a' st''. scale a f mp st' = Inr (a', st'') \<longrightarrow> st'' ! img b = st ! img a)
     \<and> (\<forall>f b' st''. zoom_in b f st' = Inr (b', st'') \<longrightarrow> st'' ! img a = st ! img a)
     \<and> (\<forall>f a' st''. zoom_in a f st' = Inr (a', st'') \<longrightarrow> st'' ! img b = st ! img a)"
    using ne ib l sa sb c 1 2 3 4 5 6
    by (simp add: b AnchoredImage_def default_config_def)
qed

text \<open>
  The statement at the 10 by 10 image with a configuration of its own.
\<close>

theorem deepcopy_independent_witness:
  "img (a0\<lparr>config := \<lparr>max_pixels = 5, resampler = NEAREST\<rparr>\<rparr>) < length st0
   \<and> deepcopy (a0\<lparr>config := \<lparr>max_pixels = 5, resampler = NEAREST\<rparr>\<rparr>) st0
       = (a0\<lparr>img := 1\<rparr>, st0 @ st0)
   \<and> config (a0\<lparr>img := 1\<rparr>) = default_config
   \<and> (st0 @ st0) ! img (a0\<lparr>img := 1\<rparr>) = st0 ! 0
   \<and> paste (a0\<lparr>img := 1\<rparr>) (PILImage 0) None (st0 @ st0) =
       Inr (st0 @ [\<lparr>width = 10, height = 10, raster = Pasted (Raw 0) (Raw 0) (0, 0)\<rparr>])
   \<and> (st0 @ [\<lparr>width = 10, height = 10, raster = Pasted (Raw 0) (Raw 0) (0, 0)\<rparr>]) ! 0 = st0 ! 0"
  using deepcopy_independent [of "a0\<lparr>config := \<lparr>max_pixels = 5, resampler = NEAREST\<rparr>\<rparr>" st0
      "a0\<lparr>img := 1\<rparr>" "st0 @ st0"]
  by (simp add: a0_def st0_def AnchoredImage_def deepcopy_def pil_copy_def paste_def
      pil_paste_def)

text \<open>
  Claim C10. For a plain Pillow image \<^verbatim>\<open>load_image\<close>, and with it the constructor
  of \<^verbatim>\<open>Gifception\<close>, raises \<^verbatim>\<open>NameError\<close>: the name \<^verbatim>\<open>imge\<close> is not bound.
  An anchored image is stored as it is, and anything else raises \<^verbatim>\<open>TypeError\<close>.
\<close>

theorem load_image_plain_image:
  "load_image (PILImage i) = Inl (NameError ''imge'')
   \<and> Gifception (PILImage i) cfg ps = Inl (NameError ''imge'')
   \<and> load_image (Anchored a) = Inr a
   \<and> load_image OtherObject = Inl (TypeError (Text ''Need an Image or AnchoredImage!''))"
  by (simp add: load_image_def Gifception_def resolve_name_def load_image_scope_def)

text \<open>
  Claim C5. A \<^verbatim>\<open>Gifception\<close> just built has no attribute \<^verbatim>\<open>qin\<close>, so
  \<^verbatim>\<open>wait_for_frames\<close> raises \<^verbatim>\<open>AttributeError\<close> at its first line, before the
  test that would raise \<^verbatim>\<open>GifceptionException\<close>.
\<close>

theorem wait_for_frames_never_started:
  "Gifception (Anchored a0) None None =
     Inr \<lparr>base_image = a0, config_gc = default_gc_config, params_gc = default_params,
          nested_base = None, frame_workers = {}, qin = Absent, qout = Absent\<rparr>
   \<and> wait_for_frames None
        \<lparr>base_image = a0, config_gc = default_gc_config, params_gc = default_params,
          nested_base = None, frame_workers = {}, qin = Absent, qout = Absent\<rparr> no_run
      = Some (Inl (AttributeError ''qin''))"
  by (simp add: Gifception_def load_image_def wait_for_frames_def)

section \<open>The growth loop of the nested base\<close>

lemma paste_aligned_ok:
  "paste_aligned a b st = Inr (a, pil_paste (img a) (img b)
      (\<lceil>fst (get_anchor_absolute a st) - fst (get_anchor_absolute b st)\<rceil>,
       \<lceil>snd (get_anchor_absolute a st) - snd (get_anchor_absolute b st)\<rceil>) st)"
  by (simp add: paste_aligned_def paste_def Let_def)

lemma pil_paste_size [simp]:
  "width (pil_paste i j off st ! k) = width (st ! k)"
  "height (pil_paste i j off st ! k) = height (st ! k)"
  "length (pil_paste i j off st) = length st"
  by (cases "i < length st"; cases "k = i"; simp add: pil_paste_def list_update_beyond)+



lemma py_int_zero [simp]: "py_int 0 = 0"
  by (simp add: py_int_def)






lemma deepcopy_size:
  "deepcopy a st = (b, st') \<Longrightarrow> size_img b st' = size_img a st \<and> config b = default_config
     \<and> rel_anchor b = rel_anchor a \<and> img b = length st \<and> st' = st @ [st ! img a]"
  by (auto simp: deepcopy_def pil_copy_def size_img_def AnchoredImage_def)












section \<open>Frame file names\<close>








lemma replicate_numeral_unfold:
  "replicate (numeral k) x = x # replicate (pred_numeral k) x"
  by (simp add: numeral_eq_Suc)

lemma frame_file_name_examples:
  "frame_file_name 1 = ''frame-00001.png'' \<and> frame_file_name 2 = ''frame-00002.png''
   \<and> frame_file_name 3 = ''frame-00003.png'' \<and> frame_file_name 4 = ''frame-00004.png''
   \<and> frame_file_name 5 = ''frame-00005.png'' \<and> frame_file_name 120 = ''frame-00120.png''
   \<and> frame_file_name 123456 = ''frame-123456.png''"
  by (simp add: frame_file_name_def format_05d_def decimal.simps digit_char_def
      replicate_numeral_unfold)

section \<open>Rendering a frame\<close>

lemma py_round_nonneg: "0 \<le> x \<Longrightarrow> 0 \<le> py_round x"
  by (auto simp: py_round_def Let_def)

lemma py_round_add_of_int: "py_round (of_int a + of_int b) = a + b"
  using py_round_of_int [of "a + b"] by simp

lemma pil_resize_ok:
  assumes "1 \<le> fst sz" "1 \<le> snd sz"
  shows "\<exists>st'. pil_resize i sz f st = Inr (length st, st')
     \<and> int (width (st' ! length st)) = fst sz \<and> int (height (st' ! length st)) = snd sz"
proof (cases "(int (width (st ! i)), int (height (st ! i))) = sz")
  case True
  then show ?thesis by (auto simp: pil_resize_def Let_def pil_copy_def)
next
  case False
  then show ?thesis using assms by (simp add: pil_resize_def Let_def)
qed

lemma zoom_in_ok:
  assumes "0 < f" "1 \<le> width (st ! img a)" "1 \<le> height (st ! img a)"
  shows "\<exists>a' st'. zoom_in a f st = Inr (a', st') \<and> size_img a' st' = size_img a st"
proof -
  let ?w = "width (st ! img a)" and ?h = "height (st ! img a)"
  let ?ox = "py_round (fst (rel_anchor a) * real ?w * (1 - 1 / f))"
  let ?oy = "py_round (snd (rel_anchor a) * real ?h * (1 - 1 / f))"
  let ?ws = "py_round (real ?w / f)" and ?hs = "py_round (real ?h / f)"
  have nn: "0 \<le> ?ws" "0 \<le> ?hs" using assms(1) by (simp_all add: py_round_nonneg)
  have box: "zoom_in_box a f True st =
      Inr (((of_int ?ox, of_int ?oy), (of_int ?ox + of_int ?ws, of_int ?oy + of_int ?hs)),
           (of_int ?ox, of_int ?oy, of_int ?ox + of_int ?ws, of_int ?oy + of_int ?hs))"
    using assms(1) by (simp add: zoom_in_box_def Let_def size_img_def)
  let ?c = "\<lparr>width = nat ?ws, height = nat ?hs,
      raster = Cropped (raster (st ! img a)) (?ox, ?oy, ?ox + ?ws, ?oy + ?hs)\<rparr>"
  have crop: "pil_crop (img a)
        (of_int ?ox, of_int ?oy, of_int ?ox + of_int ?ws, of_int ?oy + of_int ?hs) st =
      Inr (length st, st @ [?c])"
    using nn by (simp add: pil_crop_def Let_def py_round_add_of_int)
  obtain st2 where rs: "pil_resize (length st) (int ?w, int ?h) (resampler (config a)) (st @ [?c])
      = Inr (Suc (length st), st2)"
    and sz: "int (width (st2 ! Suc (length st))) = int ?w" "int (height (st2 ! Suc (length st))) = int ?h"
    using pil_resize_ok [of "(int ?w, int ?h)" "length st" "resampler (config a)" "st @ [?c]"]
      assms(2,3) by auto
  define i where "i = Suc (length st)"
  have "zoom_in a f st = Inr (a\<lparr>img := i\<rparr>, st2)"
    using box crop rs by (simp add: zoom_in_def size_img_def i_def)
  then show ?thesis using sz by (auto simp: size_img_def i_def)
qed

lemma scale_ok:
  assumes "\<not> (max_pixels (config a) < real (width (st ! img a)) * real (height (st ! img a)) * f ^ 2
             \<and> 0 < max_pixels (config a))"
    and "1 \<le> py_int (real (width (st ! img a)) * f)"
    and "1 \<le> py_int (real (height (st ! img a)) * f)"
  shows "\<exists>a' st'. scale a f None st = Inr (a', st')
     \<and> int (width (st' ! img a')) = py_int (real (width (st ! img a)) * f)
     \<and> int (height (st' ! img a')) = py_int (real (height (st ! img a)) * f)"
proof -
  let ?sz = "(py_int (real (width (st ! img a)) * f), py_int (real (height (st ! img a)) * f))"
  obtain st' where "pil_resize (img a) ?sz (resampler (config a)) st = Inr (length st, st')"
    "int (width (st' ! length st)) = fst ?sz" "int (height (st' ! length st)) = snd ?sz"
    using pil_resize_ok [of ?sz "img a" "resampler (config a)" st] assms(2,3) by auto
  then have "scale a f None st = Inr (a\<lparr>img := length st\<rparr>, st')
     \<and> int (width (st' ! img (a\<lparr>img := length st\<rparr>))) = py_int (real (width (st ! img a)) * f)
     \<and> int (height (st' ! img (a\<lparr>img := length st\<rparr>))) = py_int (real (height (st ! img a)) * f)"
    using assms(1) by (simp add: scale_def Let_def size_img_def)
  then show ?thesis by blast
qed

lemma paste_smaller_ok:
  assumes "inner_scale ps \<noteq> 0" and valid: "img frame < length st"
  shows "\<exists>st'. paste_smaller nb ps frame mz st = Inr st' \<and> length st \<le> length st'
     \<and> (\<forall>k<length st. k \<noteq> img frame \<longrightarrow> st' ! k = st ! k)
     \<and> width (st' ! img frame) = width (st ! img frame)
     \<and> height (st' ! img frame) = height (st ! img frame)"
proof -
  obtain smaller st1 where d: "deepcopy nb st = (smaller, st1)" by (cases "deepcopy nb st")
  then have st1: "st1 = st @ [st ! img nb]" by (simp add: deepcopy_size)
  have k: "py_truediv mz (inner_scale ps) = Inr (mz / inner_scale ps)"
    using assms by (simp add: py_truediv_def)
  show ?thesis
  proof (cases "scale smaller (mz / inner_scale ps) None st1")
    case (Inl e)
    then obtain m where "e = ValueError m" using scale_error [OF Inl] by auto
    then have "paste_smaller nb ps frame mz st = Inr st1"
      using d k Inl by (simp add: paste_smaller_def)
    then show ?thesis using valid by (simp add: st1 nth_append)
  next
    case (Inr r)
    obtain smaller' st2 where r: "r = (smaller', st2)" by (cases r)
    have f2: "length st2 = Suc (length st1)" "\<forall>k<length st1. st2 ! k = st1 ! k"
      using scale_frame [OF Inr [unfolded r]] by simp_all
    obtain st3 where p: "paste_aligned frame smaller' st2 = Inr (frame, st3)"
      by (simp add: paste_aligned_ok)
    have f3: "length st3 = length st2" "\<forall>k. k \<noteq> img frame \<longrightarrow> st3 ! k = st2 ! k"
      "size_img frame st3 = size_img frame st2"
      using paste_aligned_frame [OF p] by simp_all
    have "paste_smaller nb ps frame mz st = Inr st3"
      using d k Inr r p by (simp add: paste_smaller_def)
    moreover have "\<forall>k<length st. k \<noteq> img frame \<longrightarrow> st3 ! k = st ! k"
      using f2 f3 by (simp add: st1 nth_append)
    moreover have "width (st3 ! img frame) = width (st ! img frame)"
      "height (st3 ! img frame) = height (st ! img frame)"
      using f3(3) f2(2) valid by (simp_all add: size_img_def st1 nth_append)
    ultimately show ?thesis using f2 f3 by (simp add: st1)
  qed
qed

lemma make_frame_ok:
  assumes r: "renderable (st ! img nb) ps" and v: "img nb < length st"
  shows "\<exists>im st'. make_frame (Some nb) ps n st = Inr ((frame_file_name n, im), st')
     \<and> int (width im) = py_int (real (width (st ! img nb)) * (1 / downscale ps))
     \<and> int (height im) = py_int (real (height (st ! img nb)) * (1 / downscale ps))
     \<and> length st \<le> length st' \<and> (\<forall>k<length st. st' ! k = st ! k)"
proof -
  let ?B = "st ! img nb"
  let ?ex = "1 / (real (num_frames ps) - 1)"
  let ?zoom = "inner_scale ps powr ?ex"
  let ?mz = "?zoom powr (real n - 1)"
  let ?k = "1 / downscale ps"
  from r have B: "1 \<le> width ?B" "1 \<le> height ?B" and isc: "0 < inner_scale ps"
    and nf: "2 \<le> num_frames ps" and ds: "downscale ps \<noteq> 0"
    and lim: "real (width ?B) * real (height ?B) * ?k ^ 2 \<le> 800000000"
    and pos: "1 \<le> py_int (real (width ?B) * ?k)" "1 \<le> py_int (real (height ?B) * ?k)"
    by (simp_all add: renderable_def)
  have e1: "py_truediv 1 (real (num_frames ps) - 1) = Inr ?ex"
    using nf by (simp add: py_truediv_def)
  have e2: "py_pow (inner_scale ps) ?ex = Inr ?zoom"
    using isc by (simp add: py_pow_def)
  have zpos: "0 < ?zoom" using isc by simp
  have e3: "py_pow ?zoom (real n - 1) = Inr ?mz"
    using zpos by (simp only: py_pow_def if_True)
  have mzpos: "0 < ?mz" using zpos by simp
  obtain frame st1 where d: "deepcopy nb st = (frame, st1)" by (cases "deepcopy nb st")
  have f1: "img frame = length st" "st1 = st @ [?B]" "config frame = default_config"
    using deepcopy_size [OF d] by simp_all
  have sz1: "width (st1 ! img frame) = width ?B" "height (st1 ! img frame) = height ?B"
    by (simp_all add: f1)
  obtain frame1 st2 where z: "zoom_in frame ?mz st1 = Inr (frame1, st2)"
    and zs: "size_img frame1 st2 = size_img frame st1"
    using zoom_in_ok [OF mzpos, of st1 frame] B sz1 by auto
  have f2: "img frame1 = Suc (length st1)" "length st2 = Suc (Suc (length st1))"
    "\<forall>k<length st1. st2 ! k = st1 ! k" "config frame1 = config frame"
    using zoom_in_frame [OF z] by simp_all
  have sz2: "width (st2 ! img frame1) = width ?B" "height (st2 ! img frame1) = height ?B"
    using zs sz1 by (simp_all add: size_img_def)
  have "\<exists>st3. (if paste_within ps then paste_smaller nb ps frame1 ?mz st2 else Inr st2) = Inr st3
      \<and> length st2 \<le> length st3
      \<and> (\<forall>k<length st2. k \<noteq> img frame1 \<longrightarrow> st3 ! k = st2 ! k)
      \<and> width (st3 ! img frame1) = width (st2 ! img frame1)
      \<and> height (st3 ! img frame1) = height (st2 ! img frame1)"
  proof (cases "paste_within ps")
    case True
    have "inner_scale ps \<noteq> 0" using isc by simp
    moreover have "img frame1 < length st2" using f2 by simp
    ultimately show ?thesis using paste_smaller_ok [of ps frame1 st2 nb ?mz] True by simp
  next
    case False
    then show ?thesis by simp
  qed
  then obtain st3 where p: "(if paste_within ps then paste_smaller nb ps frame1 ?mz st2 else Inr st2) = Inr st3"
    and f3: "length st2 \<le> length st3" "\<forall>k<length st2. k \<noteq> img frame1 \<longrightarrow> st3 ! k = st2 ! k"
    and sz3: "width (st3 ! img frame1) = width ?B" "height (st3 ! img frame1) = height ?B"
    using sz2 by auto
  have e4: "py_truediv 1 (downscale ps) = Inr ?k" using ds by (simp add: py_truediv_def)
  have cfg: "config frame1 = default_config" using f2(4) f1(3) by simp
  have nolim: "\<not> (max_pixels (config frame1)
        < real (width (st3 ! img frame1)) * real (height (st3 ! img frame1)) * ?k ^ 2
      \<and> 0 < max_pixels (config frame1))"
    using lim by (simp add: cfg default_config_def sz3)
  obtain frame2 st4 where s: "scale frame1 ?k None st3 = Inr (frame2, st4)"
    and sz4: "int (width (st4 ! img frame2)) = py_int (real (width ?B) * ?k)"
      "int (height (st4 ! img frame2)) = py_int (real (height ?B) * ?k)"
    using scale_ok [OF nolim] pos sz3 by auto
  have f4: "length st4 = Suc (length st3)" "\<forall>k<length st3. st4 ! k = st3 ! k"
    using scale_frame [OF s] by simp_all
  have mf: "make_frame (Some nb) ps n st = Inr ((frame_file_name n, st4 ! img frame2), st4)"
    unfolding make_frame_def using e1 e2 e3 d z p e4 s by simp
  have keep: "\<forall>k<length st. st4 ! k = st ! k"
  proof (intro allI impI)
    fix k assume k: "k < length st"
    then have "st4 ! k = st3 ! k" using f4 f3 f2 f1 by simp
    also have "st3 ! k = st2 ! k" using f3 f2 f1 k by simp
    also have "st2 ! k = st1 ! k" using f2 f1 k by simp
    also have "st1 ! k = st ! k" using f1 k by (simp add: nth_append)
    finally show "st4 ! k = st ! k" .
  qed
  have "length st \<le> length st4" using f4 f3 f2 f1 by simp
  then show ?thesis using mf sz4 keep by blast
qed

section \<open>The worker pool\<close>

lemma sum_list_map_update:
  fixes f :: "'a \<Rightarrow> 'b::comm_monoid_add"
  shows "p < length xs \<Longrightarrow>
    sum_list (map f (xs[p := y])) + f (xs ! p) = sum_list (map f xs) + f y"
proof (induction xs arbitrary: p)
  case Nil
  then show ?case by simp
next
  case (Cons x xs)
  show ?case
  proof (cases p)
    case 0
    then show ?thesis by (simp add: ac_simps)
  next
    case (Suc q)
    then have "sum_list (map f (xs[q := y])) + f (xs ! q) = sum_list (map f xs) + f y"
      using Cons by simp
    then show ?thesis using Suc by (simp add: ac_simps)
  qed
qed

lemma list_all_update:
  "list_all Q xs \<Longrightarrow> Q y \<Longrightarrow> list_all Q (xs[p := y])"
  by (auto simp: list_all_iff dest!: subsetD [OF set_update_subset_insert])

lemma frames_of_append [simp]: "frames_of (xs @ ys) = frames_of xs @ frames_of ys"
  by (induction xs rule: frames_of.induct) simp_all

lemma frames_of_map_Some [simp]: "frames_of (map Some xs) = xs"
  by (induction xs) simp_all

lemma frames_of_replicate_None [simp]: "frames_of (replicate k None) = []"
  by (induction k) simp_all

lemma stops_of_simps [simp]:
  "stops_of [] = 0" "stops_of (None # xs) = Suc (stops_of xs)"
  "stops_of (Some i # xs) = stops_of xs"
  "stops_of (xs @ ys) = stops_of xs + stops_of ys"
  "stops_of (map Some zs) = 0" "stops_of (replicate k None) = k"
  by (simp_all add: stops_of_def comp_def)

lemma length_frames_stops: "length xs = length (frames_of xs) + stops_of xs"
  by (induction xs rule: frames_of.induct) simp_all

lemma worker_step_cases:
  assumes "worker_step p s = Some s'"
  obtains
    (take) i rest where "p < length (workers s)" "activity (workers s ! p) = Waiting"
      "qin_items s = Some i # rest"
      "s' = s\<lparr>qin_items := rest,
               workers := (workers s)[p := (workers s ! p)\<lparr>activity := Rendering i\<rparr>]\<rparr>"
  | (stop) rest where "p < length (workers s)" "activity (workers s ! p) = Waiting"
      "qin_items s = None # rest"
      "s' = s\<lparr>qin_items := rest,
               workers := (workers s)[p := (workers s ! p)\<lparr>activity := Reporting None\<rparr>]\<rparr>"
  | (crash) i e where "p < length (workers s)" "activity (workers s ! p) = Rendering i"
      "make_frame (w_nested_base (workers s ! p)) (w_params (workers s ! p)) i
         (memory (workers s ! p)) = Inl e"
      "s' = s\<lparr>workers := (workers s)[p := (workers s ! p)\<lparr>activity := Died e\<rparr>]\<rparr>"
  | (render) i name im m where "p < length (workers s)" "activity (workers s ! p) = Rendering i"
      "make_frame (w_nested_base (workers s ! p)) (w_params (workers s ! p)) i
         (memory (workers s ! p)) = Inr ((name, im), m)"
      "s' = s\<lparr>out_dir := (out_dir s)(name \<mapsto> im),
               workers := (workers s)
                 [p := (workers s ! p)\<lparr>activity := Reporting (Some i), memory := m\<rparr>]\<rparr>"
  | (report) item where "p < length (workers s)" "activity (workers s ! p) = Reporting item"
      "can_put (capacity s) (qout_items s)"
      "s' = s\<lparr>qout_items := qout_items s @ [item],
               workers := (workers s)
                 [p := (workers s ! p)\<lparr>activity :=
                    (case item of None \<Rightarrow> Finished | Some i \<Rightarrow> Waiting)\<rparr>]\<rparr>"
  using assms unfolding worker_step_def Let_def
  by (auto split: if_splits activity.splits list.splits option.splits sum.splits prod.splits)

lemma sum_activity_update:
  fixes f :: "activity \<Rightarrow> 'b::comm_monoid_add"
  assumes "p < length ws" "activity y = a"
  shows "sum_list (map (\<lambda>w. f (activity w)) (ws[p := y])) + f (activity (ws ! p))
       = sum_list (map (\<lambda>w. f (activity w)) ws) + f a"
  using sum_list_map_update [OF assms(1), of "\<lambda>w. f (activity w)" y] assms(2) by simp

lemma worker_inv_mono:
  "worker_inv N nb ps B dir w \<Longrightarrow> dom dir \<subseteq> dom dir' \<Longrightarrow> worker_inv N nb ps B dir' w"
  by (auto simp: worker_inv_def split: activity.splits option.splits)

lemma ran_upd_subset: "ran (m(k \<mapsto> v)) \<subseteq> insert v (ran m)"
  by (auto simp: ran_def)

lemma worker_step_inv:
  assumes inv: "pool_inv N P nb ps B s" and r: "renderable B ps"
    and step: "worker_step p s = Some s'"
  shows "pool_inv N P nb ps B s' \<and> pool_measure s' < pool_measure s"
  using step
proof (cases rule: worker_step_cases)
  case (take i rest)
  let ?w = "workers s ! p" and ?y = "(workers s ! p)\<lparr>activity := Rendering i\<rparr>"
  have wi: "worker_inv N nb ps B (out_dir s) ?w"
    using inv take(1) by (simp add: pool_inv_def list_all_length)
  have rng: "1 \<le> i \<and> i \<le> N" using inv take(3) by (simp add: pool_inv_def)
  have y: "worker_inv N nb ps B (out_dir s) ?y"
    using wi rng by (simp add: worker_inv_def)
  have ws: "list_all (worker_inv N nb ps B (out_dir s)) ((workers s)[p := ?y])"
    using inv y by (simp add: pool_inv_def list_all_update)
  have h: "sum_list (map (\<lambda>w. held (activity w)) ((workers s)[p := ?y]))
      = sum_list (map (\<lambda>w. held (activity w)) (workers s)) + {#i#}"
    using sum_activity_update [OF take(1), of ?y "Rendering i" held] take(2)
    by (simp add: held_def)
  have o: "sum_list (map (\<lambda>w. owes_stop (activity w)) ((workers s)[p := ?y]))
      = sum_list (map (\<lambda>w. owes_stop (activity w)) (workers s))"
    using sum_activity_update [OF take(1), of ?y "Rendering i" owes_stop] take(2)
    by (simp add: owes_stop_def)
  have b: "sum_list (map (\<lambda>w. busy (activity w)) ((workers s)[p := ?y]))
      = sum_list (map (\<lambda>w. busy (activity w)) (workers s)) + 1"
    using sum_activity_update [OF take(1), of ?y "Rendering i" busy] take(2)
    by (simp add: busy_def)
  have e: "sum_list (map (\<lambda>w. effort (activity w)) ((workers s)[p := ?y]))
      = sum_list (map (\<lambda>w. effort (activity w)) (workers s)) + 2"
    using sum_activity_update [OF take(1), of ?y "Rendering i" effort] take(2)
    by (simp add: effort_def)
  have l: "rest = [] \<or> last rest = None"
    using inv take(3) by (auto simp: pool_inv_def split: if_splits)
  have "pool_inv N P nb ps B s'"
    using inv ws h o b l unfolding pool_inv_def take(4) by (simp add: take(3))
  moreover have "pool_measure s' < pool_measure s"
    using e by (simp add: pool_measure_def take(3,4))
  ultimately show ?thesis ..
next
  case (stop rest)
  let ?w = "workers s ! p" and ?y = "(workers s ! p)\<lparr>activity := Reporting None\<rparr>"
  have wi: "worker_inv N nb ps B (out_dir s) ?w"
    using inv stop(1) by (simp add: pool_inv_def list_all_length)
  have y: "worker_inv N nb ps B (out_dir s) ?y"
    using wi by (simp add: worker_inv_def)
  have ws: "list_all (worker_inv N nb ps B (out_dir s)) ((workers s)[p := ?y])"
    using inv y by (simp add: pool_inv_def list_all_update)
  have h: "sum_list (map (\<lambda>w. held (activity w)) ((workers s)[p := ?y]))
      = sum_list (map (\<lambda>w. held (activity w)) (workers s))"
    using sum_activity_update [OF stop(1), of ?y "Reporting None" held] stop(2)
    by (simp add: held_def)
  have o: "sum_list (map (\<lambda>w. owes_stop (activity w)) ((workers s)[p := ?y])) + 1
      = sum_list (map (\<lambda>w. owes_stop (activity w)) (workers s))"
    using sum_activity_update [OF stop(1), of ?y "Reporting None" owes_stop] stop(2)
    by (simp add: owes_stop_def)
  have b: "sum_list (map (\<lambda>w. busy (activity w)) ((workers s)[p := ?y]))
      = sum_list (map (\<lambda>w. busy (activity w)) (workers s)) + 1"
    using sum_activity_update [OF stop(1), of ?y "Reporting None" busy] stop(2)
    by (simp add: busy_def)
  have e: "sum_list (map (\<lambda>w. effort (activity w)) ((workers s)[p := ?y]))
      = sum_list (map (\<lambda>w. effort (activity w)) (workers s)) + 1"
    using sum_activity_update [OF stop(1), of ?y "Reporting None" effort] stop(2)
    by (simp add: effort_def)
  have l: "rest = [] \<or> last rest = None"
    using inv stop(3) by (auto simp: pool_inv_def split: if_splits)
  have "pool_inv N P nb ps B s'"
    using inv ws h o b l unfolding pool_inv_def stop(4) by (simp add: stop(3))
  moreover have "pool_measure s' < pool_measure s"
    using e by (simp add: pool_measure_def stop(3,4))
  ultimately show ?thesis ..
next
  case (crash i e)
  let ?w = "workers s ! p"
  have wi: "worker_inv N nb ps B (out_dir s) ?w"
    using inv crash(1) by (simp add: pool_inv_def list_all_length)
  then have "renderable (memory ?w ! img nb) ps" "img nb < length (memory ?w)"
    "w_nested_base ?w = Some nb" "w_params ?w = ps"
    using r by (simp_all add: worker_inv_def)
  then show ?thesis using make_frame_ok [of "memory ?w" nb ps i] crash(3) by auto
next
  case (render i name im m)
  let ?w = "workers s ! p"
  let ?y = "(workers s ! p)\<lparr>activity := Reporting (Some i), memory := m\<rparr>"
  let ?dir = "(out_dir s)(name \<mapsto> im)"
  have wi: "worker_inv N nb ps B (out_dir s) ?w"
    using inv render(1) by (simp add: pool_inv_def list_all_length)
  then have w: "renderable (memory ?w ! img nb) ps" "img nb < length (memory ?w)"
    "w_nested_base ?w = Some nb" "w_params ?w = ps" "memory ?w ! img nb = B"
    and rng: "1 \<le> i \<and> i \<le> N"
    using r render(2) by (simp_all add: worker_inv_def)
  from make_frame_ok [OF w(1,2), of i] render(3) w(3,4)
  have mf: "name = frame_file_name i" "frame_size_ok B ps im"
    "img nb < length m" "m ! img nb = B"
    using w(2,5) by (auto simp: frame_size_ok_def)
  have y: "worker_inv N nb ps B ?dir ?y"
    using wi mf by (simp add: worker_inv_def)
  have "list_all (worker_inv N nb ps B ?dir) (workers s)"
    using inv worker_inv_mono [of N nb ps B "out_dir s" _ ?dir]
    by (auto simp: pool_inv_def list_all_iff)
  then have ws: "list_all (worker_inv N nb ps B ?dir) ((workers s)[p := ?y])"
    using y by (simp add: list_all_update)
  have h: "sum_list (map (\<lambda>w. held (activity w)) ((workers s)[p := ?y]))
      = sum_list (map (\<lambda>w. held (activity w)) (workers s))"
    using sum_activity_update [OF render(1), of ?y "Reporting (Some i)" held] render(2)
    by (simp add: held_def)
  have o: "sum_list (map (\<lambda>w. owes_stop (activity w)) ((workers s)[p := ?y]))
      = sum_list (map (\<lambda>w. owes_stop (activity w)) (workers s))"
    using sum_activity_update [OF render(1), of ?y "Reporting (Some i)" owes_stop] render(2)
    by (simp add: owes_stop_def)
  have b: "sum_list (map (\<lambda>w. busy (activity w)) ((workers s)[p := ?y]))
      = sum_list (map (\<lambda>w. busy (activity w)) (workers s))"
    using sum_activity_update [OF render(1), of ?y "Reporting (Some i)" busy] render(2)
    by (simp add: busy_def)
  have e: "sum_list (map (\<lambda>w. effort (activity w)) ((workers s)[p := ?y])) + 1
      = sum_list (map (\<lambda>w. effort (activity w)) (workers s))"
    using sum_activity_update [OF render(1), of ?y "Reporting (Some i)" effort] render(2)
    by (simp add: effort_def)
  have d1: "dom ?dir \<subseteq> frame_file_name ` {1..N}"
    using inv rng mf(1) by (auto simp: pool_inv_def)
  have d2: "ran ?dir \<subseteq> Collect (frame_size_ok B ps)"
    using inv mf(2) ran_upd_subset [of "out_dir s" name im] by (auto simp: pool_inv_def)
  have d3: "list_all (\<lambda>i. frame_file_name i \<in> dom ?dir) (frames_of (qout_items s))"
    using inv by (auto simp: pool_inv_def list_all_iff)
  have "pool_inv N P nb ps B s'"
    using inv ws h o b d1 d2 d3 unfolding pool_inv_def render(4) by simp
  moreover have "pool_measure s' < pool_measure s"
    using e by (simp add: pool_measure_def render(4))
  ultimately show ?thesis ..
next
  case (report item)
  let ?w = "workers s ! p"
  let ?a = "case item of None \<Rightarrow> Finished | Some i \<Rightarrow> Waiting"
  let ?y = "(workers s ! p)\<lparr>activity := ?a\<rparr>"
  have wi: "worker_inv N nb ps B (out_dir s) ?w"
    using inv report(1) by (simp add: pool_inv_def list_all_length)
  have y: "worker_inv N nb ps B (out_dir s) ?y"
    using wi by (cases item) (simp_all add: worker_inv_def)
  have ws: "list_all (worker_inv N nb ps B (out_dir s)) ((workers s)[p := ?y])"
    using inv y by (simp add: pool_inv_def list_all_update)
  have h: "sum_list (map (\<lambda>w. held (activity w)) ((workers s)[p := ?y]))
        + mset (frames_of [item])
      = sum_list (map (\<lambda>w. held (activity w)) (workers s))"
    using sum_activity_update [OF report(1), of ?y ?a held] report(2)
    by (cases item) (simp_all add: held_def)
  have o: "sum_list (map (\<lambda>w. owes_stop (activity w)) ((workers s)[p := ?y]))
      = sum_list (map (\<lambda>w. owes_stop (activity w)) (workers s))"
    using sum_activity_update [OF report(1), of ?y ?a owes_stop] report(2)
    by (cases item) (simp_all add: owes_stop_def)
  have b: "sum_list (map (\<lambda>w. busy (activity w)) ((workers s)[p := ?y])) + 1
      = sum_list (map (\<lambda>w. busy (activity w)) (workers s))"
    using sum_activity_update [OF report(1), of ?y ?a busy] report(2)
    by (cases item) (simp_all add: busy_def)
  have e: "sum_list (map (\<lambda>w. effort (activity w)) ((workers s)[p := ?y])) + 1
      = sum_list (map (\<lambda>w. effort (activity w)) (workers s))"
    using sum_activity_update [OF report(1), of ?y ?a effort] report(2)
    by (cases item) (simp_all add: effort_def)
  have d3: "list_all (\<lambda>i. frame_file_name i \<in> dom (out_dir s)) (frames_of [item])"
    using wi report(2) by (cases item) (simp_all add: worker_inv_def)
  have c: "mset (frames_of (qin_items s))
        + sum_list (map (\<lambda>w. held (activity w)) ((workers s)[p := ?y]))
        + mset (frames_of (qout_items s @ [item])) = mset [1..<Suc N]"
    using inv h [symmetric] by (simp add: pool_inv_def ac_simps)
  have n: "length (qin_items s) + length (qout_items s @ [item])
        + sum_list (map (\<lambda>w. busy (activity w)) ((workers s)[p := ?y])) = N + P"
    using inv b by (simp add: pool_inv_def)
  have "pool_inv N P nb ps B s'"
    using inv ws o c n d3 unfolding pool_inv_def report(4) by simp
  moreover have "pool_measure s' < pool_measure s"
    using e by (simp add: pool_measure_def report(4))
  ultimately show ?thesis ..
qed

lemma run_workers_inv:
  assumes "renderable B ps"
  shows "pool_inv N P nb ps B s \<Longrightarrow> run_workers sched s = Some s'
     \<Longrightarrow> pool_inv N P nb ps B s' \<and> length sched + pool_measure s' \<le> pool_measure s"
proof (induction sched arbitrary: s)
  case Nil
  then show ?case by simp
next
  case (Cons p sched)
  from Cons.prems(2) obtain s1 where s1: "worker_step p s = Some s1"
    and rest: "run_workers sched s1 = Some s'"
    by (auto split: option.splits)
  have "pool_inv N P nb ps B s1 \<and> pool_measure s1 < pool_measure s"
    using worker_step_inv [OF Cons.prems(1) assms s1] .
  moreover from this have "pool_inv N P nb ps B s' \<and> length sched + pool_measure s' \<le> pool_measure s1"
    using Cons.IH [OF _ rest] by simp
  ultimately show ?case by simp
qed

lemma sum_list_map_zero:
  fixes f :: "'a \<Rightarrow> 'b::monoid_add"
  shows "\<forall>x\<in>set xs. f x = 0 \<Longrightarrow> sum_list (map f xs) = 0"
  by (induction xs) simp_all

lemma sum_list_map_one:
  "\<forall>x\<in>set xs. f x = (1::nat) \<Longrightarrow> sum_list (map f xs) = length xs"
  by (induction xs) simp_all

lemma nth_le_sum_list:
  "p < length xs \<Longrightarrow> f (xs ! p) \<le> sum_list (map f xs)" for f :: "'a \<Rightarrow> nat"
  using member_le_sum_list [of "f (xs ! p)" "map f xs"] by simp

text \<open>No deadlock: while a worker has not finished, some worker can move.\<close>

lemma pool_progress:
  assumes inv: "pool_inv N P nb ps B s" and nf: "\<not> all_finished s"
  shows "\<exists>p s'. worker_step p s = Some s'"
proof -
  from nf obtain p where p: "p < length (workers s)" and a: "activity (workers s ! p) \<noteq> Finished"
    by (auto simp: all_finished_def list_all_length)
  let ?w = "workers s ! p"
  have wi: "worker_inv N nb ps B (out_dir s) ?w"
    using inv p by (simp add: pool_inv_def list_all_length)
  show ?thesis
  proof (cases "activity ?w")
    case Waiting
    have "1 \<le> sum_list (map (\<lambda>w. owes_stop (activity w)) (workers s))"
      using nth_le_sum_list [OF p, of "\<lambda>w. owes_stop (activity w)"] Waiting
      by (simp add: owes_stop_def)
    moreover have "stops_of (qin_items s) = sum_list (map (\<lambda>w. owes_stop (activity w)) (workers s))"
      using inv by (simp add: pool_inv_def)
    ultimately have "0 < stops_of (qin_items s)" by linarith
    then have "qin_items s \<noteq> []" by auto
    then obtain x rest where "qin_items s = x # rest" by (cases "qin_items s") auto
    then have "\<exists>s'. worker_step p s = Some s'" using p Waiting
      by (cases x) (simp_all add: worker_step_def Let_def)
    then show ?thesis by blast
  next
    case (Rendering i)
    then have "\<exists>s'. worker_step p s = Some s'" using p
      by (simp add: worker_step_def Let_def split: sum.splits prod.splits)
    then show ?thesis by blast
  next
    case (Reporting item)
    have "1 \<le> sum_list (map (\<lambda>w. busy (activity w)) (workers s))"
      using nth_le_sum_list [OF p, of "\<lambda>w. busy (activity w)"] Reporting
      by (simp add: busy_def)
    moreover have "length (qin_items s) + length (qout_items s)
        + sum_list (map (\<lambda>w. busy (activity w)) (workers s)) = N + P" "capacity s = P + N"
      using inv by (simp_all add: pool_inv_def)
    ultimately have "can_put (capacity s) (qout_items s)"
      by (simp add: can_put_def)
    then have "\<exists>s'. worker_step p s = Some s'" using p Reporting
      by (simp add: worker_step_def Let_def)
    then show ?thesis by blast
  next
    case Finished
    then show ?thesis using a by simp
  next
    case (Died e)
    then show ?thesis using wi by (simp add: worker_inv_def)
  qed
qed

lemma in_frames_of: "i \<in> set (frames_of xs) \<longleftrightarrow> Some i \<in> set xs"
  by (induction xs rule: frames_of.induct) auto

text \<open>What the run has done once every worker has finished.\<close>

lemma pool_finished:
  assumes inv: "pool_inv N P nb ps B s" and fin: "all_finished s"
  shows "qin_items s = []" "length (qout_items s) = N + P"
    "dom (out_dir s) = frame_file_name ` {1..N}"
    "ran (out_dir s) \<subseteq> Collect (frame_size_ok B ps)"
    "mset (frames_of (qout_items s)) = mset [1..<Suc N]"
proof -
  have f: "\<forall>w\<in>set (workers s). activity w = Finished"
    using fin by (simp add: all_finished_def list_all_iff)
  have o: "sum_list (map (\<lambda>w. owes_stop (activity w)) (workers s)) = 0"
    using f by (intro sum_list_map_zero) (simp add: owes_stop_def)
  have b: "sum_list (map (\<lambda>w. busy (activity w)) (workers s)) = 0"
    using f by (intro sum_list_map_zero) (simp add: busy_def)
  have h: "sum_list (map (\<lambda>w. held (activity w)) (workers s)) = {#}"
    using f sum_list_map_zero [of "workers s" "\<lambda>w. held (activity w)"] by (simp add: held_def)
  have "stops_of (qin_items s) = 0" using inv o by (simp add: pool_inv_def)
  moreover have "qin_items s = [] \<or> last (qin_items s) = None" using inv by (simp add: pool_inv_def)
  ultimately show q: "qin_items s = []"
    by (cases "qin_items s" rule: rev_cases) (auto simp: stops_of_def)
  show "length (qout_items s) = N + P" using inv b q by (simp add: pool_inv_def)
  show m: "mset (frames_of (qout_items s)) = mset [1..<Suc N]"
    using inv h q by (simp add: pool_inv_def)
  then have "set (frames_of (qout_items s)) = {1..N}"
    using mset_eq_setD [OF m] by auto
  then have "frame_file_name ` {1..N} \<subseteq> dom (out_dir s)"
    using inv by (auto simp: pool_inv_def list_all_iff)
  then show "dom (out_dir s) = frame_file_name ` {1..N}"
    using inv by (auto simp: pool_inv_def)
  show "ran (out_dir s) \<subseteq> Collect (frame_size_ok B ps)" using inv by (simp add: pool_inv_def)
qed

text \<open>From every state of a run the workers can be scheduled to the end.\<close>

lemma pool_completes:
  assumes "renderable B ps"
  shows "pool_inv N P nb ps B s \<Longrightarrow> \<exists>sched s'. run_workers sched s = Some s' \<and> all_finished s'"
proof (induction "pool_measure s" arbitrary: s rule: less_induct)
  case less
  show ?case
  proof (cases "all_finished s")
    case True
    then have "run_workers [] s = Some s \<and> all_finished s" by simp
    then show ?thesis by blast
  next
    case False
    then obtain p s1 where s1: "worker_step p s = Some s1"
      using pool_progress [OF less.prems] by blast
    have "pool_inv N P nb ps B s1 \<and> pool_measure s1 < pool_measure s"
      using worker_step_inv [OF less.prems assms s1] .
    then obtain sched s' where "run_workers sched s1 = Some s'" "all_finished s'"
      using less.hyps [of s1] by blast
    then have "run_workers (p # sched) s = Some s' \<and> all_finished s'"
      using s1 by simp
    then show ?thesis by blast
  qed
qed

lemma launch_inv:
  assumes "nested_base g = Some nb" "img nb < length st" "1 \<le> num_processes (config_gc g)"
  shows "pool_inv (num_frames (params_gc g)) (num_processes (config_gc g)) nb (params_gc g)
           (st ! img nb) (snd (launch g st))"
    and "pool_measure (snd (launch g st))
           = 3 * (num_frames (params_gc g) + num_processes (config_gc g))"
proof -
  let ?N = "num_frames (params_gc g)" and ?P = "num_processes (config_gc g)"
  define ws where "ws = map (\<lambda>pn. \<lparr>w_nested_base = nested_base g, w_params = params_gc g,
                num = pn, activity = Waiting, memory = st\<rparr>) [1..<Suc ?P]"
  define fs where "fs = [1..<Suc ?N]"
  define s0 where "s0 = \<lparr>qin_items = map Some fs @ replicate ?P None, qout_items = [],
      capacity = ?P + ?N, workers = ws, out_dir = Map.empty\<rparr>"
  have s0: "snd (launch g st) = s0"
    by (simp add: launch_def Let_def s0_def ws_def fs_def)
  have a: "\<forall>w\<in>set ws. activity w = Waiting" by (auto simp: ws_def)
  have len: "length ws = ?P" by (simp add: ws_def)
  have h: "sum_list (map (\<lambda>w. held (activity w)) ws) = {#}"
    using a by (intro sum_list_map_zero) (simp add: held_def)
  have b: "sum_list (map (\<lambda>w. busy (activity w)) ws) = 0"
    using a by (intro sum_list_map_zero) (simp add: busy_def)
  have e: "sum_list (map (\<lambda>w. effort (activity w)) ws) = 0"
    using a by (intro sum_list_map_zero) (simp add: effort_def)
  have o: "sum_list (map (\<lambda>w. owes_stop (activity w)) ws) = ?P"
    using a sum_list_map_one [of ws "\<lambda>w. owes_stop (activity w)"]
    by (simp add: owes_stop_def len)
  have wi: "list_all (worker_inv ?N nb (params_gc g) (st ! img nb) Map.empty) ws"
    using assms(1,2) by (auto simp: list_all_iff worker_inv_def ws_def)
  have l: "last (map Some fs @ replicate ?P None) = None"
    using assms(3) by (cases ?P) simp_all
  have rng: "list_all (\<lambda>i. 1 \<le> i \<and> i \<le> ?N) fs"
    by (auto simp: list_all_iff fs_def)
  have m: "mset fs = mset [1..<Suc ?N]" "length fs = ?N"
    by (simp_all add: fs_def)
  have "pool_inv ?N ?P nb (params_gc g) (st ! img nb) s0"
    unfolding pool_inv_def s0_def using wi l rng
    by (simp add: h b o len m del: upt_Suc)
  then show "pool_inv ?N ?P nb (params_gc g) (st ! img nb) (snd (launch g st))"
    by (simp add: s0)
  have "pool_measure s0 = 3 * (?N + ?P)"
    by (simp add: pool_measure_def s0_def e m)
  then show "pool_measure (snd (launch g st)) = 3 * (?N + ?P)" by (simp add: s0)
qed

section \<open>A whole run\<close>

lemma prepare_nested_base_fields:
  "prepare_nested_base fuel g st = Some (Inr (g1, s1)) \<Longrightarrow> \<exists>nb. g1 = g\<lparr>nested_base := Some nb\<rparr>"
  by (auto simp: prepare_nested_base_def split: prod.splits sum.splits option.splits)

lemma start_ready:
  assumes "frame_workers g = {}"
    and "(case nested_base g of None \<Rightarrow> prepare_nested_base fuel g st
          | Some b \<Rightarrow> Some (Inr (g, st))) = Some (Inr (g1, s1))"
  shows "start_making_frames fuel g st = Some (Inr (launch g1 s1))"
    and "params_gc g1 = params_gc g" and "config_gc g1 = config_gc g"
    and "frame_workers g1 = {}"
proof -
  show "start_making_frames fuel g st = Some (Inr (launch g1 s1))"
    using assms by (auto simp: start_making_frames_def split: option.splits)
  show "params_gc g1 = params_gc g" "config_gc g1 = config_gc g" "frame_workers g1 = {}"
    using assms prepare_nested_base_fields [of fuel g st g1 s1]
    by (auto split: option.splits)
qed

lemma worker_step_nums:
  assumes "worker_step p s = Some s'"
  shows "map num (workers s') = map num (workers s)"
  using assms
  by (cases rule: worker_step_cases) (simp_all add: map_update list_update_same_conv)

lemma run_workers_nums:
  "run_workers sched s = Some s' \<Longrightarrow> map num (workers s') = map num (workers s)"
proof (induction sched arbitrary: s)
  case Nil
  then show ?case by simp
next
  case (Cons p sched)
  then show ?case
    by (auto split: option.splits dest!: worker_step_nums)
qed

lemma launch_fields:
  "qin (fst (launch g st)) = Bound QueueRef \<and> qout (fst (launch g st)) = Bound QueueRef"
  "frame_workers (fst (launch g st)) = frame_workers g \<union> {1..num_processes (config_gc g)}"
  "config_gc (fst (launch g st)) = config_gc g"
  "params_gc (fst (launch g st)) = params_gc g"
  "map num (workers (snd (launch g st))) = [1..<Suc (num_processes (config_gc g))]"
  by (auto simp: launch_def Let_def comp_def)

lemma wait_after_run:
  assumes inv: "pool_inv N P nb ps B s"
    and nums: "set (map num (workers s)) \<subseteq> frame_workers g"
    and q: "qin g = Bound QueueRef \<and> qout g = Bound QueueRef"
    and np: "num_processes (config_gc g) = P" "num_frames (params_gc g) = N"
  shows "wait_for_frames None g s =
     (if all_finished s then Some (Inr (g\<lparr>frame_workers := {}\<rparr>)) else None)"
proof (cases "all_finished s")
  case True
  then have "\<forall>w\<in>set (workers s). \<not> alive w"
    by (auto simp: all_finished_def list_all_iff alive_def)
  then show ?thesis
    using True pool_finished(1,2) [OF inv True] q np
    by (simp add: wait_for_frames_def)
next
  case False
  then obtain w where w: "w \<in> set (workers s)" "activity w \<noteq> Finished"
    by (auto simp: all_finished_def list_all_iff)
  have "worker_inv N nb ps B (out_dir s) w"
    using inv w(1) by (auto simp: pool_inv_def list_all_iff)
  then have "alive w" using w(2)
    by (cases "activity w") (simp_all add: alive_def worker_inv_def)
  moreover have "num w \<in> frame_workers g" using nums w(1) by auto
  ultimately show ?thesis using False q w(1)
    by (auto simp: wait_for_frames_def)
qed


text \<open>
  A run from an orchestrator whose nested base is built (or can be) and renderable, with
  at least one worker: some schedule completes it; every schedule that lets
  \<^verbatim>\<open>make_frames\<close> return has at most three steps for each queue item, and then the
  directory holds the frames 1 to \<open>N\<close>, each of the final size; and a run never
  reaches a state in which workers are left and none can move.
\<close>

lemma make_frames_runs:
  assumes P: "1 \<le> num_processes (config_gc g)"
    and idle: "frame_workers g = {}"
    and built: "(case nested_base g of None \<Rightarrow> prepare_nested_base fuel g st
          | Some b \<Rightarrow> Some (Inr (g, st))) = Some (Inr (g1, s1))"
    and nb: "nested_base g1 = Some nb" "img nb < length s1"
    and r: "renderable (s1 ! img nb) (params_gc g)"
  shows "\<exists>sched g2 dir. make_frames fuel sched g st = Some (Inr (g2, dir))"
    and "make_frames fuel sched g st = Some res \<Longrightarrow>
           \<exists>g2 dir. res = Inr (g2, dir)
             \<and> dom dir = frame_file_name ` {1..num_frames (params_gc g)}
             \<and> ran dir \<subseteq> Collect (frame_size_ok (s1 ! img nb) (params_gc g))
             \<and> length sched \<le> 3 * (num_frames (params_gc g) + num_processes (config_gc g))
             \<and> frame_workers g2 = {}"
    and "run_workers sched (snd (launch g1 s1)) = Some s2 \<Longrightarrow>
           length sched \<le> 3 * (num_frames (params_gc g) + num_processes (config_gc g))
           \<and> (all_finished s2 \<or> (\<exists>p s3. worker_step p s2 = Some s3))"
proof -
  let ?N = "num_frames (params_gc g)" and ?P = "num_processes (config_gc g)"
  let ?B = "s1 ! img nb" and ?ps = "params_gc g"
  obtain gl s0 where l: "launch g1 s1 = (gl, s0)" by (cases "launch g1 s1")
  note sr = start_ready [OF idle built]
  have start: "start_making_frames fuel g st = Some (Inr (gl, s0))"
    using sr(1) l by simp
  have P1: "1 \<le> num_processes (config_gc g1)" using P by (simp only: sr(3))
  have s0: "snd (launch g1 s1) = s0" and gl0: "fst (launch g1 s1) = gl"
    by (simp_all only: l fst_conv snd_conv)
  have inv0: "pool_inv ?N ?P nb ?ps ?B s0"
    using launch_inv(1) [OF nb P1] by (simp only: sr(2) sr(3) s0)
  have m0: "pool_measure s0 = 3 * (?N + ?P)"
    using launch_inv(2) [OF nb P1] by (simp only: sr(2) sr(3) s0)
  have gl: "qin gl = Bound QueueRef \<and> qout gl = Bound QueueRef" "frame_workers gl = {1..?P}"
    "num_processes (config_gc gl) = ?P" "num_frames (params_gc gl) = ?N"
    using launch_fields(1-4) [of g1 s1] by (simp_all only: gl0 sr(2) sr(3) sr(4) Un_empty_left)
  have n0: "map num (workers s0) = [1..<Suc ?P]"
    using launch_fields(5) [of g1 s1] by (simp only: s0 sr(3))
  have after: "pool_inv ?N ?P nb ?ps ?B s \<and> length sch + pool_measure s \<le> 3 * (?N + ?P)
      \<and> wait_for_frames None gl s
          = (if all_finished s then Some (Inr (gl\<lparr>frame_workers := {}\<rparr>)) else None)"
    if run: "run_workers sch s0 = Some s" for sch s
  proof -
    have i: "pool_inv ?N ?P nb ?ps ?B s" and le: "length sch + pool_measure s \<le> pool_measure s0"
      using run_workers_inv [OF r inv0 run] by blast+
    have "set (map num (workers s)) = {1..?P}"
      by (simp only: run_workers_nums [OF run] n0) auto
    then have nums: "set (map num (workers s)) \<subseteq> frame_workers gl"
      by (simp only: gl(2))
    have w: "wait_for_frames None gl s
          = (if all_finished s then Some (Inr (gl\<lparr>frame_workers := {}\<rparr>)) else None)"
      by (rule wait_after_run [OF i nums gl(1,3,4)])
    show ?thesis using i le w by (simp only: m0)
  qed
  have mfs: "make_frames fuel sch g st =
      (case run_workers sch s0 of
         None \<Rightarrow> None
       | Some s \<Rightarrow> if all_finished s then Some (Inr (gl\<lparr>frame_workers := {}\<rparr>, out_dir s)) else None)"
    for sch
  proof (cases "run_workers sch s0")
    case None
    then show ?thesis by (simp add: make_frames_def start)
  next
    case (Some s)
    have "wait_for_frames None gl s
          = (if all_finished s then Some (Inr (gl\<lparr>frame_workers := {}\<rparr>)) else None)"
      using after [OF Some] by blast
    then show ?thesis by (simp add: make_frames_def start Some)
  qed
  show "\<exists>sched g2 dir. make_frames fuel sched g st = Some (Inr (g2, dir))"
  proof -
    obtain sch s where run: "run_workers sch s0 = Some s" and fin: "all_finished s"
      using pool_completes [OF r inv0] by blast
    have "make_frames fuel sch g st = Some (Inr (gl\<lparr>frame_workers := {}\<rparr>, out_dir s))"
      by (simp add: mfs run fin)
    then show ?thesis by blast
  qed
  show "\<exists>g2 dir. res = Inr (g2, dir)
             \<and> dom dir = frame_file_name ` {1..?N}
             \<and> ran dir \<subseteq> Collect (frame_size_ok ?B ?ps)
             \<and> length sched \<le> 3 * (?N + ?P)
             \<and> frame_workers g2 = {}"
    if mf: "make_frames fuel sched g st = Some res"
  proof -
    from mf obtain s where run: "run_workers sched s0 = Some s"
      by (cases "run_workers sched s0") (simp_all add: mfs)
    have fin: "all_finished s"
      using mf by (cases "all_finished s") (simp_all add: mfs run)
    have res: "res = Inr (gl\<lparr>frame_workers := {}\<rparr>, out_dir s)"
      using mf by (simp add: mfs run fin)
    have inv: "pool_inv ?N ?P nb ?ps ?B s" and len: "length sched \<le> 3 * (?N + ?P)"
      using after [OF run] by simp_all
    have "dom (out_dir s) = frame_file_name ` {1..?N}"
      "ran (out_dir s) \<subseteq> Collect (frame_size_ok ?B ?ps)"
      using pool_finished(3,4) [OF inv fin] .
    then show ?thesis using len by (simp add: res)
  qed
  show "length sched \<le> 3 * (?N + ?P) \<and> (all_finished s2 \<or> (\<exists>p s3. worker_step p s2 = Some s3))"
    if run: "run_workers sched (snd (launch g1 s1)) = Some s2"
  proof -
    have run0: "run_workers sched s0 = Some s2" using run l by simp
    have "pool_inv ?N ?P nb ?ps ?B s2" "length sched \<le> 3 * (?N + ?P)"
      using after [OF run0] by simp_all
    then show ?thesis using pool_progress [of ?N ?P nb ?ps ?B s2] by blast
  qed
qed

section \<open>The frames of a run\<close>

lemma prepared_projection:
  assumes "map_option (map_sum id (\<lambda>(g, s). (g, length s, width (s ! k), height (s ! k))))
             (prepare_nested_base fuel g st) = Some (Inr (g1, n, w, h))"
  shows "\<exists>s1. prepare_nested_base fuel g st = Some (Inr (g1, s1)) \<and> length s1 = n
           \<and> width (s1 ! k) = w \<and> height (s1 ! k) = h"
proof (cases "prepare_nested_base fuel g st")
  case None
  then show ?thesis using assms by simp
next
  case (Some r)
  then show ?thesis using assms by (cases r) auto
qed


lemma prepare_nested_base_scenario:
  "\<exists>s1. prepare_nested_base 5 g8 st8 = Some (Inr (g8\<lparr>nested_base := Some (a0\<lparr>img := 2\<rparr>)\<rparr>, s1))
     \<and> length s1 = 9 \<and> width (s1 ! 2) = 1600 \<and> height (s1 ! 2) = 1200"
proof -
  have "map_option (map_sum id (\<lambda>(g, s). (g, length s, width (s ! 2), height (s ! 2))))
          (prepare_nested_base 5 g8 st8)
        = Some (Inr (g8\<lparr>nested_base := Some (a0\<lparr>img := 2\<rparr>)\<rparr>, 9, 1600, 1200))"
    by code_simp
  then show ?thesis by (rule prepared_projection)
qed

lemma frame_files_1_to_5:
  "frame_file_name ` {1..5} =
     {''frame-00001.png'', ''frame-00002.png'', ''frame-00003.png'', ''frame-00004.png'',
      ''frame-00005.png''}"
proof -
  have "{1..5::nat} = {1, 2, 3, 4, 5}" by auto
  then show ?thesis using frame_file_name_examples by simp
qed

text \<open>The scenario, for any schedule.\<close>

lemma scenario_runs:
  shows "\<exists>sched g2 dir. make_frames 5 sched g8 st8 = Some (Inr (g2, dir))"
    and "make_frames 5 sched g8 st8 = Some res \<Longrightarrow>
      \<exists>g2 dir. res = Inr (g2, dir)
        \<and> dom dir = frame_file_name ` {1..5}
        \<and> (\<forall>im\<in>ran dir. width im = 800 \<and> height im = 600)"
proof -
  obtain s1 where p: "prepare_nested_base 5 g8 st8
        = Some (Inr (g8\<lparr>nested_base := Some (a0\<lparr>img := 2\<rparr>)\<rparr>, s1))"
    and s1: "length s1 = 9" "width (s1 ! 2) = 1600" "height (s1 ! 2) = 1200"
    using prepare_nested_base_scenario by blast
  let ?g1 = "g8\<lparr>nested_base := Some (a0\<lparr>img := 2\<rparr>)\<rparr>" and ?nb = "a0\<lparr>img := 2\<rparr>"
  have P: "1 \<le> num_processes (config_gc g8)" by (simp add: g8_def config8_def)
  have idle: "frame_workers g8 = {}" by (simp add: g8_def)
  have built: "(case nested_base g8 of None \<Rightarrow> prepare_nested_base 5 g8 st8
          | Some b \<Rightarrow> Some (Inr (g8, st8))) = Some (Inr (?g1, s1))"
    using p by (simp add: g8_def)
  have nb: "nested_base ?g1 = Some ?nb" "img ?nb < length s1" by (simp_all add: s1)
  have ps: "params_gc g8 = params8" by (simp add: g8_def)
  have r: "renderable (s1 ! img ?nb) (params_gc g8)"
    by (simp add: renderable_def s1 ps params8_def py_int_def power2_eq_square)
  show "\<exists>sched g2 dir. make_frames 5 sched g8 st8 = Some (Inr (g2, dir))"
    by (rule make_frames_runs(1) [OF P idle built nb r])
  show "\<exists>g2 dir. res = Inr (g2, dir)
        \<and> dom dir = frame_file_name ` {1..5}
        \<and> (\<forall>im\<in>ran dir. width im = 800 \<and> height im = 600)"
    if mf: "make_frames 5 sched g8 st8 = Some res"
  proof -
    obtain g2 dir where res: "res = Inr (g2, dir)"
      and d: "dom dir = frame_file_name ` {1..num_frames (params_gc g8)}"
      and sz: "ran dir \<subseteq> Collect (frame_size_ok (s1 ! img ?nb) (params_gc g8))"
      using make_frames_runs(2) [OF P idle built nb r mf] by blast
    have "num_frames (params_gc g8) = 5" by (simp add: ps params8_def)
    then have d5: "dom dir = frame_file_name ` {1..5}"
      using d by simp
    have "width im = 800 \<and> height im = 600" if "im \<in> ran dir" for im
    proof -
      have "frame_size_ok (s1 ! 2) params8 im" using sz that by (auto simp: ps)
      then show ?thesis by (simp add: frame_size_ok_def s1 params8_def py_int_def)
    qed
    then show ?thesis using res d5 by blast
  qed
qed




text \<open>
  Claim C8, as stated, fails: no run of the scenario ends with the five files at 400 by
  300. (The frames are 800 by 600.)
\<close>

theorem scenario_frames_are_not_400_by_300:
  "\<not> (\<exists>sched g2 dir. make_frames 5 sched g8 st8 = Some (Inr (g2, dir))
        \<and> dom dir = {''frame-00001.png'', ''frame-00002.png'', ''frame-00003.png'',
                     ''frame-00004.png'', ''frame-00005.png''}
        \<and> (\<forall>im\<in>ran dir. width im = 400 \<and> height im = 300))"
  unfolding frame_files_1_to_5 [symmetric]
proof
  assume "\<exists>sched g2 dir. make_frames 5 sched g8 st8 = Some (Inr (g2, dir))
        \<and> dom dir = frame_file_name ` {1..5}
        \<and> (\<forall>im\<in>ran dir. width im = 400 \<and> height im = 300)"
  then obtain sched g2 dir where run: "make_frames 5 sched g8 st8 = Some (Inr (g2, dir))"
    and d: "dom dir = frame_file_name ` {1..5}"
    and small: "\<forall>im\<in>ran dir. width im = 400 \<and> height im = 300"
    by blast
  have big: "\<forall>im\<in>ran dir. width im = 800 \<and> height im = 600"
    using scenario_runs(2) [OF run] by auto
  have "frame_file_name 1 \<in> dom dir" using d by simp
  then obtain im where "dir (frame_file_name 1) = Some im" by blast
  then have "im \<in> ran dir" by (rule ranI)
  then show False using big small by auto
qed

text \<open>
  Claim C8, amended. The scenario: an 800 by 600 picture, \<^verbatim>\<open>preup = 2\<close>,
  \<^verbatim>\<open>inner_scale = 4\<close>, \<^verbatim>\<open>downscale = 2\<close>, five frames, quality paste on, three
  workers. The constructor accepts the anchored picture; some schedule lets
  \<^verbatim>\<open>make_frames\<close> return; and whenever it returns it returns normally with exactly the
  files \<^verbatim>\<open>frame-00001.png\<close> to \<^verbatim>\<open>frame-00005.png\<close> in the directory, each 800 by
  600.
\<close>

theorem scenario_800_by_600:
  "Gifception (Anchored a0) (Some config8) (Some params8) = Inr g8
   \<and> (\<exists>sched g2 dir. make_frames 5 sched g8 st8 = Some (Inr (g2, dir)))
   \<and> (\<forall>sched res. make_frames 5 sched g8 st8 = Some res \<longrightarrow>
        (\<exists>g2 dir. res = Inr (g2, dir)
           \<and> dom dir = {''frame-00001.png'', ''frame-00002.png'', ''frame-00003.png'',
                        ''frame-00004.png'', ''frame-00005.png''}
           \<and> (\<forall>im\<in>ran dir. width im = 800 \<and> height im = 600)))"
  unfolding frame_files_1_to_5 [symmetric]
proof -
  have "Gifception (Anchored a0) (Some config8) (Some params8) = Inr g8"
    by (simp add: Gifception_def load_image_def g8_def)
  then show "Gifception (Anchored a0) (Some config8) (Some params8) = Inr g8
   \<and> (\<exists>sched g2 dir. make_frames 5 sched g8 st8 = Some (Inr (g2, dir)))
   \<and> (\<forall>sched res. make_frames 5 sched g8 st8 = Some res \<longrightarrow>
        (\<exists>g2 dir. res = Inr (g2, dir)
           \<and> dom dir = frame_file_name ` {1..5}
           \<and> (\<forall>im\<in>ran dir. width im = 800 \<and> height im = 600)))"
    using scenario_runs by blast
qed

text \<open>A run of the scenario that returns, with what the statement says of it.\<close>

theorem scenario_800_by_600_witness:
  "\<exists>sched res. make_frames 5 sched g8 st8 = Some res
     \<and> (\<exists>g2 dir. res = Inr (g2, dir)
           \<and> dom dir = {''frame-00001.png'', ''frame-00002.png'', ''frame-00003.png'',
                        ''frame-00004.png'', ''frame-00005.png''}
           \<and> (\<forall>im\<in>ran dir. width im = 800 \<and> height im = 600))"
  unfolding frame_files_1_to_5 [symmetric]
proof -
  note t = scenario_800_by_600 [unfolded frame_files_1_to_5 [symmetric]]
  from t obtain sched g2 dir where run: "make_frames 5 sched g8 st8 = Some (Inr (g2, dir))"
    by blast
  from t run have "\<exists>g2' dir'. Inr (g2, dir) = Inr (g2', dir')
           \<and> dom dir' = frame_file_name ` {1..5}
           \<and> (\<forall>im\<in>ran dir'. width im = 800 \<and> height im = 600)"
    by blast
  then have d: "dom dir = frame_file_name ` {1..5}"
    and sz: "\<forall>im\<in>ran dir. width im = 800 \<and> height im = 600"
    by auto
  have "make_frames 5 sched g8 st8 = Some (Inr (g2, dir))
     \<and> (\<exists>g2' dir'. Inr (g2, dir) = Inr (g2', dir')
           \<and> dom dir' = frame_file_name ` {1..5}
           \<and> (\<forall>im\<in>ran dir'. width im = 800 \<and> height im = 600))"
    using run d sz by simp
  then show "\<exists>sched res. make_frames 5 sched g8 st8 = Some res
     \<and> (\<exists>g2 dir. res = Inr (g2, dir)
           \<and> dom dir = frame_file_name ` {1..5}
           \<and> (\<forall>im\<in>ran dir. width im = 800 \<and> height im = 600))"
    by (intro exI)
qed

end
